theory Spec2Isabelle
  imports Main "HOL-Library.Word"
begin

unbundle bit_operations_syntax

section \<open>Machine types\<close>

text \<open>
  Go's fixed-width unsigned integers are words; \<open>int64\<close> is a 64-bit word read
  with \<open>sint\<close>, so the conversions \<open>int64(x)\<close> and \<open>uint64(x)\<close> keep the bits.
  A Go \<open>string\<close> is a sequence of bytes, here a \<open>string\<close> (a list of 8-bit
  characters). Fixed-size arrays (\<open>[6]byte\<close>, \<open>[8]byte\<close>, \<open>[36]uint16\<close>,
  \<open>[420]byte\<close>, \<open>[512]byte\<close>) are lists; what the array type guarantees about
  the length is a hypothesis wherever a statement depends on it.
\<close>

type_synonym byte = "8 word"
type_synonym uint8 = "8 word"
type_synonym uint16 = "16 word"
type_synonym uint32 = "32 word"
type_synonym uint64 = "64 word"
type_synonym int64 = "64 word"
type_synonym rune = nat

definition string_of_bytes :: "byte list \<Rightarrow> string" where
  "string_of_bytes bs = map (\<lambda>b. char_of (unat b)) bs"

definition bytes_of_string :: "string \<Rightarrow> byte list" where
  "bytes_of_string cs = map of_char cs"

section \<open>guid.go\<close>

record GUID =
  TimeLow :: uint32
  TimeMid :: uint16
  TimeHighAndVersion :: uint16
  ClockSeqAndReserved :: uint8
  ClockSeqLow :: uint8
  Node :: "byte list"

text \<open>\<open>var ZeroGUID GUID = GUID{0, 0, 0, 0, 0, [6]byte{0, 0, 0, 0, 0}}\<close>: the array
  literal names five elements, the sixth is the zero value.\<close>

definition ZeroGUID :: GUID where
  "ZeroGUID = \<lparr>TimeLow = 0, TimeMid = 0, TimeHighAndVersion = 0,
     ClockSeqAndReserved = 0, ClockSeqLow = 0, Node = [0, 0, 0, 0, 0, 0]\<rparr>"

subsection \<open>The verbs of \<open>fmt.Sprintf\<close> that \<open>GUID.String\<close> uses\<close>

text \<open>\<open>udigits\<close> is fmt's table of upper-case digits.\<close>

definition udigits :: string where
  "udigits = ''0123456789ABCDEF''"

text \<open>The digit loop of fmt's \<open>fmtInteger\<close> in base 16: the digits of \<open>u\<close>, most
  significant first, at least one.\<close>

fun hexdigits :: "nat \<Rightarrow> string" where
  "hexdigits u =
     (if 16 \<le> u then hexdigits (u div 16) @ [udigits ! (u mod 16)] else [udigits ! u])"

text \<open>\<open>%0.<prec>X\<close> on an unsigned integer: the precision is the least number of
  digits, zeros are written in front up to it. (No width is given, so the flag
  \<open>0\<close> pads nothing.)\<close>

definition fmtX :: "nat \<Rightarrow> nat \<Rightarrow> string" where
  "fmtX prec u = (let ds = hexdigits u in replicate (prec - length ds) (CHR ''0'') @ ds)"

text \<open>\<open>%0.<prec>X\<close> on a byte array (fmt's \<open>fmtSbx\<close>): two digits for each byte,
  for at most \<open>prec\<close> bytes.\<close>

definition fmtSbx :: "nat \<Rightarrow> byte list \<Rightarrow> string" where
  "fmtSbx prec b =
     concat (map (\<lambda>c. [udigits ! unat (drop_bit 4 c), udigits ! unat (c AND 0xF)])
       (take prec b))"

text \<open>\<open>func (g GUID) String() string\<close>, the format
  \<open>"%0.8X-%0.4X-%0.4X-%0.2X%0.2X-%0.16X"\<close>.\<close>

definition String :: "GUID \<Rightarrow> string" where
  "String g =
     fmtX 8 (unat (TimeLow g)) @ ''-'' @
     fmtX 4 (unat (TimeMid g)) @ ''-'' @
     fmtX 4 (unat (TimeHighAndVersion g)) @ ''-'' @
     fmtX 2 (unat (ClockSeqAndReserved g)) @ fmtX 2 (unat (ClockSeqLow g)) @ ''-'' @
     fmtSbx 16 (Node g)"

text \<open>\<open>func (g GUID) HumanString() string\<close>: the switch over \<open>g.String()\<close>, its
  cases in the source's order and with the source's literals.\<close>

definition HumanString :: "GUID \<Rightarrow> string" where
  "HumanString g =
     (let guid = String g in
      if guid = ''00000000-0000-0000-0000-0000000000000'' then ''Unused''
      else if guid = ''C12A7328-F81F-11D2-BA4B-00A0C93EC93B'' then ''EFI System Partition''
      else if guid = ''0657FD6D-A4AB-43C4-84E5-0933C84B4F4F'' then ''Linux Swap''
      else if guid = ''9D94CE7C-1CA5-11DC-8817-01301BB8A9F5'' then ''DragonFly UFS1''
      else if guid = ''C91818F9-8025-47AF-89D2-F030D7000C2C'' then ''Plan 9''
      else if guid = ''824CC7A0-36A8-11E3-890A-952519AD3F61'' then ''OpenBSD''
      else if guid = ''0FC63DAF-8483-4772-8E79-3D69D8477DE4'' then ''Linux''
      else guid)"

subsection \<open>The byte layout of a GUID\<close>

text \<open>\<open>binary.LittleEndian.Uint16/32/64\<close>.\<close>

definition Uint16 :: "byte list \<Rightarrow> uint16" where
  "Uint16 b = ucast (b ! 0) OR push_bit 8 (ucast (b ! 1))"

definition Uint32 :: "byte list \<Rightarrow> uint32" where
  "Uint32 b = ucast (b ! 0) OR push_bit 8 (ucast (b ! 1)) OR push_bit 16 (ucast (b ! 2))
     OR push_bit 24 (ucast (b ! 3))"

definition Uint64 :: "byte list \<Rightarrow> uint64" where
  "Uint64 b = ucast (b ! 0) OR push_bit 8 (ucast (b ! 1)) OR push_bit 16 (ucast (b ! 2))
     OR push_bit 24 (ucast (b ! 3)) OR push_bit 32 (ucast (b ! 4))
     OR push_bit 40 (ucast (b ! 5)) OR push_bit 48 (ucast (b ! 6))
     OR push_bit 56 (ucast (b ! 7))"

text \<open>What \<open>binary.Read(r, binary.LittleEndian, &guid)\<close> stores for the 16 bytes it
  has read: the fields of the struct in their order, each little-endian, the
  array byte by byte.\<close>

definition decodeGUID :: "byte list \<Rightarrow> GUID" where
  "decodeGUID b =
     \<lparr>TimeLow = Uint32 (take 4 b),
      TimeMid = Uint16 (take 2 (drop 4 b)),
      TimeHighAndVersion = Uint16 (take 2 (drop 6 b)),
      ClockSeqAndReserved = b ! 8,
      ClockSeqLow = b ! 9,
      Node = take 6 (drop 10 b)\<rparr>"

text \<open>\<open>binary.LittleEndian.PutUint16/32\<close>.\<close>

definition PutUint16 :: "uint16 \<Rightarrow> byte list" where
  "PutUint16 v = [ucast v, ucast (drop_bit 8 v)]"

definition PutUint32 :: "uint32 \<Rightarrow> byte list" where
  "PutUint32 v = [ucast v, ucast (drop_bit 8 v), ucast (drop_bit 16 v), ucast (drop_bit 24 v)]"

text \<open>Modelled from the spec: the repository only reads GUIDs and has no encoder;
  \<open>encodeGUID\<close> is the "re-encoding the same fields" of the spec's round-trip
  property, the same layout written back (what \<open>binary.Write\<close> with
  \<open>binary.LittleEndian\<close> does on the struct).\<close>

definition encodeGUID :: "GUID \<Rightarrow> byte list" where
  "encodeGUID g =
     PutUint32 (TimeLow g) @ PutUint16 (TimeMid g) @ PutUint16 (TimeHighAndVersion g) @
     [ClockSeqAndReserved g, ClockSeqLow g] @ Node g"

section \<open>gpt.go\<close>

text \<open>\<open>const LogicalBlockSize uint64 = 512\<close>.\<close>

definition LogicalBlockSize :: uint64 where
  "LogicalBlockSize = 512"

record GPTHeader =
  Signature :: "byte list"
  Revision :: uint32
  HeaderSize :: uint32
  HeaderCRC32 :: uint32
  Reserved :: uint32
  MyLBA :: uint64
  AltLBA :: uint64
  FirstUseableLBA :: uint64
  LastUseableLBA :: uint64
  Disk :: GUID
  PartitionEntryLBA :: uint64
  MaxNumberPartitionEntries :: uint32
  SizeOfPartitionEntry :: uint32
  PartitionEntryArrayCRC32 :: uint32
  Padding :: "byte list"

record GPTPartitionEntry =
  PartitionType :: GUID
  UniqueParitition :: GUID
  StartingLBA :: uint64
  EndingLBA :: uint64
  Attributes :: uint64
  PartitionName :: "uint16 list"

subsection \<open>Errors\<close>

text \<open>The errors a reader hands back: \<open>io.EOF\<close>, \<open>io.ErrUnexpectedEOF\<close>, and any
  other error of the device, by its message.\<close>

datatype ioerror = EOF | ErrUnexpectedEOF | OtherError string

text \<open>The ways the package's functions fail. The source builds its own errors with
  \<open>fmt.Errorf\<close>; each is a constructor here, named as the specification names it,
  and \<open>Error\<close> gives the message of the source. \<open>IO\<close> is an error of the reader
  returned unchanged. \<open>PanicDivideByZero\<close> is not a returned error but Go's run-time
  panic "integer divide by zero".\<close>

datatype error =
    IO ioerror
  | BadSignature string
  | ReservedFieldNonZero
  | PaddingCorrupted
  | UnsupportedLayout
  | SeekMismatch
  | MisalignedEntrySize
  | ShortPaddingRead
  | EntryPaddingCorrupted
  | PanicDivideByZero

fun Error :: "error \<Rightarrow> string" where
  "Error (IO EOF) = ''EOF''"
| "Error (IO ErrUnexpectedEOF) = ''unexpected EOF''"
| "Error (IO (OtherError m)) = m"
| "Error (BadSignature sig) = ''Invalid GPT Header '' @ [CHR 0x22] @ sig @ [CHR 0x22]"
| "Error ReservedFieldNonZero = ''Invalid GPT Header. Reserved area not zero.''"
| "Error PaddingCorrupted = ''Invalid GPT Header. Header not zero padded.''"
| "Error UnsupportedLayout =
     ''TODO: Handle GPT Header or GPT Partition in non-standard location''"
| "Error SeekMismatch = ''Could not find PartitionEntry table.''"
| "Error MisalignedEntrySize = ''Partitions must fit entirely in a single block.''"
| "Error ShortPaddingRead =
     ''Could not read appropriate number of zeros to pad partition entry''"
| "Error EntryPaddingCorrupted = ''Invalid partition entry padding''"
| "Error PanicDivideByZero = ''runtime error: integer divide by zero''"

subsection \<open>\<open>GPTHeader.Verify\<close>\<close>

text \<open>\<open>for _, b := range g.Padding { if b != 0 { return ... } }\<close>: \<open>Some\<close> error at the
  first byte that is not zero.\<close>

fun rangePadding :: "byte list \<Rightarrow> error option" where
  "rangePadding [] = None"
| "rangePadding (b # bs) = (if b \<noteq> 0 then Some PaddingCorrupted else rangePadding bs)"

text \<open>\<open>func (g GPTHeader) verifyAlt() error\<close>: "TODO: Implement this", returns
  \<open>nil\<close>.\<close>

definition verifyAlt :: "GPTHeader \<Rightarrow> error option" where
  "verifyAlt g = None"

text \<open>\<open>func (g GPTHeader) Verify() error\<close>; \<open>None\<close> is Go's \<open>nil\<close>.\<close>

definition Verify :: "GPTHeader \<Rightarrow> error option" where
  "Verify g =
     (if string_of_bytes (Signature g) \<noteq> ''EFI PART''
      then Some (BadSignature (string_of_bytes (Signature g)))
      else if Reserved g \<noteq> 0 then Some ReservedFieldNonZero
      else case rangePadding (Padding g) of
        Some err \<Rightarrow> Some err
      | None \<Rightarrow>
          if MyLBA g \<noteq> 1 \<or> PartitionEntryLBA g \<noteq> 2 then Some UnsupportedLayout
          else verifyAlt g)"

subsection \<open>\<open>GPTPartitionEntry.Size\<close> and \<open>GetName\<close>\<close>

text \<open>\<open>func (e GPTPartitionEntry) Size() uint64 { return e.EndingLBA - e.StartingLBA }\<close>:
  a subtraction on \<open>uint64\<close>.\<close>

definition Size :: "GPTPartitionEntry \<Rightarrow> uint64" where
  "Size e = EndingLBA e - StartingLBA e"

text \<open>\<open>utf16.DecodeRune\<close> and \<open>utf16.Decode\<close> of Go's library: a unit outside the
  surrogate range is its own rune, a high surrogate followed by a low one is one
  rune, any other surrogate is U+FFFD.\<close>

definition DecodeRune :: "rune \<Rightarrow> rune \<Rightarrow> rune" where
  "DecodeRune r1 r2 =
     (if 0xD800 \<le> r1 \<and> r1 < 0xDC00 \<and> 0xDC00 \<le> r2 \<and> r2 < 0xE000
      then (push_bit 10 (r1 - 0xD800) OR (r2 - 0xDC00)) + 0x10000
      else 0xFFFD)"

fun utf16_Decode :: "uint16 list \<Rightarrow> rune list" where
  "utf16_Decode [] = []"
| "utf16_Decode [r] = [if r < 0xD800 \<or> 0xE000 \<le> r then unat r else 0xFFFD]"
| "utf16_Decode (r # r' # s) =
     (if r < 0xD800 \<or> 0xE000 \<le> r then unat r # utf16_Decode (r' # s)
      else if 0xD800 \<le> r \<and> r < 0xDC00 \<and> 0xDC00 \<le> r' \<and> r' < 0xE000
        then DecodeRune (unat r) (unat r') # utf16_Decode s
      else 0xFFFD # utf16_Decode (r' # s))"

text \<open>\<open>utf8.AppendRune\<close>: the UTF-8 bytes of one rune; a surrogate or a value past
  U+10FFFF is written as U+FFFD.\<close>

definition AppendRune :: "rune \<Rightarrow> byte list" where
  "AppendRune r =
     (if r < 0x80 then [word_of_nat r]
      else if r < 0x800 then
        [0xC0 OR word_of_nat (drop_bit 6 r), 0x80 OR (word_of_nat r AND 0x3F)]
      else if 0x10FFFF < r \<or> (0xD800 \<le> r \<and> r \<le> 0xDFFF) then [0xEF, 0xBF, 0xBD]
      else if r < 0x10000 then
        [0xE0 OR word_of_nat (drop_bit 12 r), 0x80 OR (word_of_nat (drop_bit 6 r) AND 0x3F),
         0x80 OR (word_of_nat r AND 0x3F)]
      else
        [0xF0 OR word_of_nat (drop_bit 18 r), 0x80 OR (word_of_nat (drop_bit 12 r) AND 0x3F),
         0x80 OR (word_of_nat (drop_bit 6 r) AND 0x3F), 0x80 OR (word_of_nat r AND 0x3F)])"

text \<open>The conversion \<open>string(runes)\<close>.\<close>

definition string_of_runes :: "rune list \<Rightarrow> string" where
  "string_of_runes rs = string_of_bytes (concat (map AppendRune rs))"

text \<open>\<open>func (e GPTPartitionEntry) GetName() string\<close>: the loop
  \<open>for i := 0; i < len(e.PartitionName); i++\<close> from index \<open>i\<close> on. It returns at the
  first unit that is zero, the empty string when that is the first unit and
  \<open>string(utf16.Decode(e.PartitionName[:i]))\<close> otherwise; without a zero unit it
  returns \<open>string(utf16.Decode(e.PartitionName[:]))\<close>.\<close>

function GetName_loop :: "uint16 list \<Rightarrow> nat \<Rightarrow> string" where
  "GetName_loop name i =
     (if i < length name then
        (let c = name ! i in
         if c = 0 then
           (if i = 0 then [] else string_of_runes (utf16_Decode (take i name)))
         else GetName_loop name (Suc i))
      else string_of_runes (utf16_Decode name))"
  by pat_completeness auto
termination
  by (relation "measure (\<lambda>(name, i). length name - i)") auto

definition GetName :: "GPTPartitionEntry \<Rightarrow> string" where
  "GetName e = GetName_loop (PartitionName e) 0"

subsection \<open>Readers\<close>

text \<open>\<open>bytes.Reader\<close>: the bytes \<open>rd_s\<close> and the read position \<open>rd_i\<close>.\<close>

record Reader =
  rd_s :: "byte list"
  rd_i :: nat

definition NewReader :: "byte list \<Rightarrow> Reader" where
  "NewReader b = \<lparr>rd_s = b, rd_i = 0\<rparr>"

text \<open>What a read of \<open>got\<close> leaves in the buffer \<open>buf\<close>: the bytes read in front,
  the rest of the buffer as it was.\<close>

definition copyInto :: "byte list \<Rightarrow> byte list \<Rightarrow> byte list" where
  "copyInto buf got = take (length buf) (got @ drop (length got) buf)"

text \<open>\<open>io.ReadFull(r, buf)\<close> on a \<open>bytes.Reader\<close>: the count \<open>n\<close>, the error and the
  buffer after the call. Nothing is asked of an empty buffer; at the end of the
  data the error is \<open>io.EOF\<close>; when the data ends inside the buffer it is
  \<open>io.ErrUnexpectedEOF\<close>.\<close>

definition bytes_ReadFull :: "Reader \<Rightarrow> byte list \<Rightarrow> (nat \<times> ioerror option \<times> byte list) \<times> Reader" where
  "bytes_ReadFull r buf =
     (if length buf = 0 then ((0, None, buf), r)
      else if length (rd_s r) \<le> rd_i r then ((0, Some EOF, buf), r)
      else
        (let got = take (length buf) (drop (rd_i r) (rd_s r)) in
         ((length got,
           if length got < length buf then Some ErrUnexpectedEOF else None,
           copyInto buf got),
          r\<lparr>rd_i := rd_i r + length got\<rparr>)))"

text \<open>\<open>io.ReadSeeker\<close>, the device \<open>hd\<close> of \<open>GetPartitions\<close>, as its two operations
  on a state \<open>'r\<close>: \<open>Seek(offset, 0)\<close> gives the new offset or an error, and
  \<open>io.ReadFull\<close> of \<open>n\<close> bytes gives the bytes or an error; both give the state of
  the device after the call.\<close>

record 'r ReadSeeker =
  Seek :: "'r \<Rightarrow> int64 \<Rightarrow> (ioerror + int64) \<times> 'r"
  ReadFull :: "'r \<Rightarrow> nat \<Rightarrow> (ioerror + byte list) \<times> 'r"

text \<open>A \<open>bytes.Reader\<close> as such a device (a disk image held in memory):
  \<open>bytes.Reader.Seek\<close> refuses a negative position and accepts every other.\<close>

definition bytes_Seek :: "Reader \<Rightarrow> int64 \<Rightarrow> (ioerror + int64) \<times> Reader" where
  "bytes_Seek r offset =
     (if sint offset < 0 then (Inl (OtherError ''bytes.Reader.Seek: negative position''), r)
      else (Inr offset, r\<lparr>rd_i := nat (sint offset)\<rparr>))"

definition bytes_ReadFullN :: "Reader \<Rightarrow> nat \<Rightarrow> (ioerror + byte list) \<times> Reader" where
  "bytes_ReadFullN r n =
     (case bytes_ReadFull r (replicate n 0) of
        ((k, Some err, buf), r') \<Rightarrow> (Inl err, r')
      | ((k, None, buf), r') \<Rightarrow> (Inr buf, r'))"

definition bytesDevice :: "Reader ReadSeeker" where
  "bytesDevice = \<lparr>Seek = bytes_Seek, ReadFull = bytes_ReadFullN\<rparr>"

subsection \<open>\<open>GPTHeader.GetPartitions\<close>\<close>

text \<open>What \<open>binary.Read(partReader, binary.LittleEndian, &p)\<close> stores for the 128
  bytes of a \<open>GPTPartitionEntry\<close>.\<close>

definition decodeEntry :: "byte list \<Rightarrow> GPTPartitionEntry" where
  "decodeEntry b =
     \<lparr>PartitionType = decodeGUID (take 16 b),
      UniqueParitition = decodeGUID (take 16 (drop 16 b)),
      StartingLBA = Uint64 (take 8 (drop 32 b)),
      EndingLBA = Uint64 (take 8 (drop 40 b)),
      Attributes = Uint64 (take 8 (drop 48 b)),
      PartitionName = map (\<lambda>k. Uint16 (take 2 (drop (56 + 2 * k) b))) [0..<36]\<rparr>"

text \<open>\<open>binary.Read\<close> of one entry: it reads the 128 bytes of the struct with
  \<open>io.ReadFull\<close> and returns that call's error, if any.\<close>

definition binary_Read :: "Reader \<Rightarrow> (ioerror + GPTPartitionEntry) \<times> Reader" where
  "binary_Read r =
     (case bytes_ReadFull r (replicate 128 0) of
        ((n, Some err, d), r') \<Rightarrow> (Inl err, r')
      | ((n, None, d), r') \<Rightarrow> (Inr (decodeEntry d), r'))"

text \<open>\<open>for i := uint32(0); i < paddingSize; i++ { if padding[i] != 0 { return ... } }\<close>\<close>

fun checkPadding :: "byte list \<Rightarrow> error option" where
  "checkPadding [] = None"
| "checkPadding (b # bs) = (if b \<noteq> 0 then Some EntryPaddingCorrupted else checkPadding bs)"

text \<open>The block \<open>if paddingSize := g.SizeOfPartitionEntry - 128; paddingSize > 0\<close>: the
  subtraction is on \<open>uint32\<close> and wraps; the buffer is filled with \<open>0xFF\<close> before
  the read.\<close>

definition readPadding :: "GPTHeader \<Rightarrow> Reader \<Rightarrow> error + Reader" where
  "readPadding g partReader =
     (let paddingSize = SizeOfPartitionEntry g - 128 in
      if paddingSize > 0 then
        (case bytes_ReadFull partReader (replicate (unat paddingSize) 0xFF) of
           ((n, Some err, padding), partReader') \<Rightarrow> Inl (IO err)
         | ((n, None, padding), partReader') \<Rightarrow>
             if (word_of_nat n :: uint32) \<noteq> paddingSize then Inl ShortPaddingRead
             else (case checkPadding padding of
                     Some err \<Rightarrow> Inl err
                   | None \<Rightarrow> Inr partReader'))
      else Inr partReader)"

text \<open>The inner loop \<open>for i := uint32(0); i < partitionsPerBlock; i++\<close> from \<open>i\<close> on:
  the entries appended and what is left of \<open>partitionsLeft\<close> (a \<open>uint32\<close>, its
  decrement wraps), or the error returned.\<close>

function entryLoop :: "GPTHeader \<Rightarrow> uint32 \<Rightarrow> uint32 \<Rightarrow> Reader \<Rightarrow> GPTPartitionEntry list \<Rightarrow> uint32
    \<Rightarrow> error + (GPTPartitionEntry list \<times> uint32)" where
  "entryLoop g partitionsPerBlock i partReader partitions partitionsLeft =
     (if i < partitionsPerBlock then
        (case binary_Read partReader of
           (Inl err, partReader') \<Rightarrow> Inl (IO err)
         | (Inr p, partReader') \<Rightarrow>
             (case readPadding g partReader' of
                Inl err \<Rightarrow> Inl err
              | Inr partReader'' \<Rightarrow>
                  entryLoop g partitionsPerBlock (i + 1) partReader''
                    (partitions @ [p]) (partitionsLeft - 1)))
      else Inr (partitions, partitionsLeft))"
  by pat_completeness auto
termination
proof (relation "measure (\<lambda>(g, partitionsPerBlock, i, rest). unat partitionsPerBlock - unat i)")
  show "wf (measure (\<lambda>(g, partitionsPerBlock, i, rest). unat partitionsPerBlock - unat i))"
    by simp
next
  fix g :: GPTHeader and partitionsPerBlock i :: uint32
    and partReader :: Reader and partitions :: "GPTPartitionEntry list"
    and partitionsLeft :: uint32 and x :: "(ioerror + GPTPartitionEntry) \<times> Reader"
    and a b and p :: GPTPartitionEntry and y :: "error + Reader" and partReader'' :: Reader
  assume lt: "i < partitionsPerBlock"
  then have "i \<noteq> - 1"
    by (metis word_order.extremum_strict)
  then have "1 + i \<noteq> 0"
    by (metis add.commute add_eq_0_iff)
  then have "unat (i + 1) = Suc (unat i)"
    using unatSuc [of i] by (simp add: add.commute)
  moreover from lt have "unat i < unat partitionsPerBlock"
    by (simp add: word_less_nat_alt)
  ultimately show "((g, partitionsPerBlock, i + 1, partReader'', partitions @ [p], partitionsLeft - 1),
      (g, partitionsPerBlock, i, partReader, partitions, partitionsLeft))
    \<in> measure (\<lambda>(g, partitionsPerBlock, i, rest). unat partitionsPerBlock - unat i)"
    by simp
qed

text \<open>The outer loop \<open>for partitionsLeft > 0\<close>: one \<open>io.ReadFull\<close> of a whole block
  into the zeroed \<open>hdBlock\<close>, then the inner loop over a reader of that block. A
  device that never runs out of data can keep this loop running for ever; then
  the result is \<open>None\<close>.\<close>

partial_function (option) blockLoop :: "'r ReadSeeker \<Rightarrow> GPTHeader \<Rightarrow> uint32 \<Rightarrow> 'r \<Rightarrow> GPTPartitionEntry list \<Rightarrow> uint32
    \<Rightarrow> ((error + GPTPartitionEntry list) \<times> 'r) option" where
  "blockLoop R g partitionsPerBlock disk partitions partitionsLeft =
     (if partitionsLeft > 0 then
        (case ReadFull R disk (unat LogicalBlockSize) of
           (Inl err, disk') \<Rightarrow> Some (Inl (IO err), disk')
         | (Inr got, disk') \<Rightarrow>
             (case entryLoop g partitionsPerBlock 0
                     (NewReader (copyInto (replicate (unat LogicalBlockSize) 0) got))
                     partitions partitionsLeft of
                Inl err \<Rightarrow> Some (Inl err, disk')
              | Inr (partitions', partitionsLeft') \<Rightarrow>
                  blockLoop R g partitionsPerBlock disk' partitions' partitionsLeft'))
      else Some (Inr partitions, disk))"

text \<open>\<open>func (g GPTHeader) GetPartitions(hd io.ReadSeeker) ([]GPTPartitionEntry, error)\<close>:
  the result and the state of the device after the call, \<open>None\<close> when the call
  does not return. Go panics on the division by zero; HOL's \<open>div\<close> does not, so
  the panic is written out where the division stands in the source, before the
  test of the remainder.\<close>

definition GetPartitions :: "'r ReadSeeker \<Rightarrow> GPTHeader \<Rightarrow> 'r \<Rightarrow> ((error + GPTPartitionEntry list) \<times> 'r) option" where
  "GetPartitions R g disk =
     (case Seek R disk (LogicalBlockSize * PartitionEntryLBA g) of
        (Inl err, disk') \<Rightarrow> Some (Inl (IO err), disk')
      | (Inr newOffset, disk') \<Rightarrow>
          if newOffset \<noteq> LogicalBlockSize * PartitionEntryLBA g then Some (Inl SeekMismatch, disk')
          else if (ucast (SizeOfPartitionEntry g) :: uint64) = 0 then Some (Inl PanicDivideByZero, disk')
          else
            (let partitionsLeft = MaxNumberPartitionEntries g;
                 partitionsPerBlock =
                   (ucast (LogicalBlockSize div ucast (SizeOfPartitionEntry g)) :: uint32)
             in
             if LogicalBlockSize mod ucast (SizeOfPartitionEntry g) \<noteq> 0
             then Some (Inl MisalignedEntrySize, disk')
             else blockLoop R g partitionsPerBlock disk' [] partitionsLeft))"

section \<open>Notions used to state the properties\<close>

text \<open>These are not functions of the source. \<open>entryAt s blk j\<close> is the entry decoded
  from slot \<open>j\<close> of a block whose entries are \<open>s\<close> bytes long, \<open>paddingAt s blk j\<close>
  the bytes of that slot after its 128 fixed bytes.\<close>

definition entryAt :: "nat \<Rightarrow> byte list \<Rightarrow> nat \<Rightarrow> GPTPartitionEntry" where
  "entryAt s blk j = decodeEntry (take 128 (drop (j * s) blk))"

definition paddingAt :: "nat \<Rightarrow> byte list \<Rightarrow> nat \<Rightarrow> byte list" where
  "paddingAt s blk j = take (s - 128) (drop (j * s + 128) blk)"

text \<open>\<open>deviceBlocks R n disk\<close>: the device hands out \<open>n\<close> whole blocks in a row,
  starting in state \<open>disk\<close>; the blocks as they arrive in \<open>hdBlock\<close> and the state
  after the last one. \<open>None\<close> when one of these reads fails.\<close>

primrec deviceBlocks :: "'r ReadSeeker \<Rightarrow> nat \<Rightarrow> 'r \<Rightarrow> (byte list list \<times> 'r) option" where
  "deviceBlocks R 0 disk = Some ([], disk)"
| "deviceBlocks R (Suc n) disk =
     (case ReadFull R disk 512 of
        (Inl err, disk') \<Rightarrow> None
      | (Inr got, disk') \<Rightarrow>
          (case deviceBlocks R n disk' of
             None \<Rightarrow> None
           | Some (blks, disk'') \<Rightarrow> Some (copyInto (replicate 512 0) got # blks, disk'')))"

section \<open>Example inputs\<close>

text \<open>A header that \<open>Verify\<close> accepts: primary placement, four entries of 128
  bytes.\<close>

definition exampleHeader :: GPTHeader where
  "exampleHeader =
     \<lparr>Signature = [0x45, 0x46, 0x49, 0x20, 0x50, 0x41, 0x52, 0x54],
      Revision = 0x00010000, HeaderSize = 92, HeaderCRC32 = 0, Reserved = 0,
      MyLBA = 1, AltLBA = 7, FirstUseableLBA = 3, LastUseableLBA = 6,
      Disk = ZeroGUID, PartitionEntryLBA = 2, MaxNumberPartitionEntries = 4,
      SizeOfPartitionEntry = 128, PartitionEntryArrayCRC32 = 0,
      Padding = replicate 420 0\<rparr>"

text \<open>The name field \<open>[0x0048, 0x0049, 0, ...]\<close> and an entry that carries it.\<close>

definition exampleName :: "uint16 list" where
  "exampleName = [0x48, 0x49] @ replicate 34 0"

definition exampleEntry :: GPTPartitionEntry where
  "exampleEntry = \<lparr>PartitionType = ZeroGUID, UniqueParitition = ZeroGUID, StartingLBA = 34,
      EndingLBA = 2047, Attributes = 0, PartitionName = exampleName\<rparr>"

text \<open>A disk image of \<open>n\<close> zero bytes, as a device.\<close>

definition zeroDisk :: "nat \<Rightarrow> Reader" where
  "zeroDisk n = NewReader (replicate n 0)"

text \<open>A block of two 256-byte entries: the first all zero; the second with fixed
  fields of \<open>0xFF\<close> bytes and one byte of its padding set. \<open>badDisk\<close> has this block
  at LBA 2.\<close>

definition paddedBlock :: "byte list" where
  "paddedBlock = replicate 256 0 @ replicate 128 0xFF @ replicate 5 0 @ [1] @ replicate 122 0"

definition badDisk :: Reader where
  "badDisk = NewReader (replicate 1024 0 @ paddedBlock @ replicate 512 0)"

text \<open>A device that never fails and never runs out: every seek lands where it is
  asked to, every read gives zero bytes.\<close>

definition endlessDevice :: "'r ReadSeeker" where
  "endlessDevice = \<lparr>Seek = (\<lambda>r offset. (Inr offset, r)), ReadFull = (\<lambda>r n. (Inr (replicate n 0), r))\<rparr>"

declare entryLoop.simps [simp del]

section \<open>Properties of guid.go\<close>

lemma String_ZeroGUID: "String ZeroGUID = ''00000000-0000-0000-0000-000000000000''"
  by code_simp

text \<open>A check of the format against a GUID whose text is known: the sixteen bytes
  of the EFI System Partition type as they stand on disk.\<close>

lemma String_EFI_System_Partition:
  "String (decodeGUID [0x28, 0x73, 0x2A, 0xC1, 0x1F, 0xF8, 0xD2, 0x11,
      0xBA, 0x4B, 0x00, 0xA0, 0xC9, 0x3E, 0xC9, 0x3B])
   = ''C12A7328-F81F-11D2-BA4B-00A0C93EC93B''"
  by (simp add: String_def decodeGUID_def Uint32_def Uint16_def fmtX_def fmtSbx_def udigits_def)

lemma HumanString_EFI_System_Partition:
  "HumanString (decodeGUID [0x28, 0x73, 0x2A, 0xC1, 0x1F, 0xF8, 0xD2, 0x11,
      0xBA, 0x4B, 0x00, 0xA0, 0xC9, 0x3E, 0xC9, 0x3B])
   = ''EFI System Partition''"
  by (simp add: HumanString_def String_EFI_System_Partition)

text \<open>
  Claim C1. \<open>String\<close> of the all-zero GUID is the 36-character zero string, and
  \<open>HumanString\<close> of the zero GUID should be the label "Unused". The first half
  holds. The second does not: the case literal of the switch has 37 characters
  (thirteen zeros in its last group), \<open>String\<close> gives 36, so the case is never
  taken and \<open>HumanString\<close> falls through to the default, the zero string itself.
\<close>

theorem HumanString_ZeroGUID_not_Unused:
  "String ZeroGUID = ''00000000-0000-0000-0000-000000000000'' \<and>
   HumanString ZeroGUID = ''00000000-0000-0000-0000-000000000000'' \<and>
   HumanString ZeroGUID \<noteq> ''Unused''"
  by (simp add: HumanString_def String_ZeroGUID)

lemma PutUint16_Uint16: "PutUint16 (Uint16 [a, b]) = [a, b]"
  unfolding PutUint16_def Uint16_def
  by (simp, intro conjI; rule bit_word_eqI) (auto simp: bit_simps dest: bit_imp_le_length)

lemma PutUint32_Uint32: "PutUint32 (Uint32 [a, b, c, d]) = [a, b, c, d]"
  unfolding PutUint32_def Uint32_def
  by (simp, intro conjI; rule bit_word_eqI) (auto simp: bit_simps dest: bit_imp_le_length)

lemma length_16_cases:
  "length (b :: byte list) = 16 \<Longrightarrow>
   \<exists>b0 b1 b2 b3 b4 b5 b6 b7 b8 b9 b10 b11 b12 b13 b14 b15.
     b = [b0, b1, b2, b3, b4, b5, b6, b7, b8, b9, b10, b11, b12, b13, b14, b15]"
  by (simp add: eval_nat_numeral length_Suc_conv) blast

lemma encodeGUID_decodeGUID_list:
  "encodeGUID (decodeGUID [b0, b1, b2, b3, b4, b5, b6, b7, b8, b9, b10, b11, b12, b13, b14, b15])
   = [b0, b1, b2, b3, b4, b5, b6, b7, b8, b9, b10, b11, b12, b13, b14, b15]"
  by (simp add: encodeGUID_def decodeGUID_def PutUint16_Uint16 PutUint32_Uint32)

text \<open>
  Claim C10. For every 16-byte input, decoding it into a GUID (little-endian
  \<open>TimeLow\<close>, \<open>TimeMid\<close>, \<open>TimeHighAndVersion\<close>, then \<open>ClockSeqAndReserved\<close>,
  \<open>ClockSeqLow\<close> and the six bytes of \<open>Node\<close>) and writing the same fields back
  in the same layout gives the original 16 bytes.
\<close>

theorem encodeGUID_decodeGUID:
  "length b = 16 \<Longrightarrow> encodeGUID (decodeGUID b) = b"
proof -
  assume l: "length b = 16"
  from length_16_cases [OF l] show ?thesis
    by (elim exE) (simp only: encodeGUID_decodeGUID_list)
qed

theorem encodeGUID_decodeGUID_witness:
  "length [0x28, 0x73, 0x2A, 0xC1, 0x1F, 0xF8, 0xD2, 0x11,
      0xBA, 0x4B, 0x00, 0xA0, 0xC9, 0x3E, 0xC9, 0x3B :: byte] = 16 \<and>
   encodeGUID (decodeGUID [0x28, 0x73, 0x2A, 0xC1, 0x1F, 0xF8, 0xD2, 0x11,
      0xBA, 0x4B, 0x00, 0xA0, 0xC9, 0x3E, 0xC9, 0x3B])
   = [0x28, 0x73, 0x2A, 0xC1, 0x1F, 0xF8, 0xD2, 0x11,
      0xBA, 0x4B, 0x00, 0xA0, 0xC9, 0x3E, 0xC9, 0x3B]"
  using encodeGUID_decodeGUID [of "[0x28, 0x73, 0x2A, 0xC1, 0x1F, 0xF8, 0xD2, 0x11,
      0xBA, 0x4B, 0x00, 0xA0, 0xC9, 0x3E, 0xC9, 0x3B]"]
  by simp

subsection \<open>The length of \<open>String\<close>\<close>

lemma length_hexdigits: "0 < n \<Longrightarrow> u < 16 ^ n \<Longrightarrow> length (hexdigits u) \<le> n"
proof (induction n arbitrary: u)
  case 0
  then show ?case by simp
next
  case (Suc m)
  show ?case
  proof (cases "16 \<le> u")
    case False
    then show ?thesis by (subst hexdigits.simps) simp
  next
    case True
    with Suc.prems have m: "0 < m"
      by (cases m) auto
    from Suc.prems have "u div 16 < 16 ^ m"
      by (simp add: less_mult_imp_div_less mult.commute)
    from Suc.IH [OF m this] True show ?thesis
      by (subst hexdigits.simps) simp
  qed
qed

lemma length_fmtX: "0 < n \<Longrightarrow> u < 16 ^ n \<Longrightarrow> length (fmtX n u) = n"
  using length_hexdigits [of n u] by (simp add: fmtX_def Let_def del: hexdigits.simps)

lemma length_fmtSbx: "length (fmtSbx p b) = 2 * min p (length b)"
proof -
  have "length (concat (map (\<lambda>c. [f c, h c]) xs)) = 2 * length xs" for f h :: "byte \<Rightarrow> char" and xs
    by (induction xs) simp_all
  then show ?thesis
    by (simp add: fmtSbx_def min.commute)
qed

lemma length_String: "length (Node g) = 6 \<Longrightarrow> length (String g) = 36"
proof -
  assume n: "length (Node g) = 6"
  have a: "length (fmtX 8 (unat (TimeLow g))) = 8"
    using unsigned_less [of "TimeLow g", where 'a = nat] by (intro length_fmtX) simp_all
  have b: "length (fmtX 4 (unat (TimeMid g))) = 4"
    using unsigned_less [of "TimeMid g", where 'a = nat] by (intro length_fmtX) simp_all
  have c: "length (fmtX 4 (unat (TimeHighAndVersion g))) = 4"
    using unsigned_less [of "TimeHighAndVersion g", where 'a = nat] by (intro length_fmtX) simp_all
  have d: "length (fmtX 2 (unat (ClockSeqAndReserved g))) = 2"
    using unsigned_less [of "ClockSeqAndReserved g", where 'a = nat] by (intro length_fmtX) simp_all
  have e: "length (fmtX 2 (unat (ClockSeqLow g))) = 2"
    using unsigned_less [of "ClockSeqLow g", where 'a = nat] by (intro length_fmtX) simp_all
  show ?thesis
    by (simp add: String_def a b c d e length_fmtSbx n)
qed

text \<open>\<open>String\<close> always has 36 characters, the first case of \<open>HumanString\<close> asks
  for 37: no GUID at all is given the label "Unused".\<close>

lemma HumanString_never_Unused:
  "length (Node g) = 6 \<Longrightarrow> HumanString g \<noteq> ''Unused''"
proof -
  assume "length (Node g) = 6"
  then have l: "length (String g) = 36"
    by (rule length_String)
  have ne: "String g \<noteq> ''00000000-0000-0000-0000-0000000000000''"
  proof
    assume "String g = ''00000000-0000-0000-0000-0000000000000''"
    then have "length (String g) = 37" by simp
    with l show False by simp
  qed
  have nu: "String g \<noteq> ''Unused''"
  proof
    assume "String g = ''Unused''"
    then have "length (String g) = 6" by simp
    with l show False by simp
  qed
  show ?thesis
    using ne nu by (simp add: HumanString_def Let_def)
qed

lemma HumanString_ZeroGUID_never_Unused:
  "length (Node ZeroGUID) = 6 \<and> HumanString ZeroGUID \<noteq> ''Unused''"
  using HumanString_never_Unused [of ZeroGUID] by (simp add: ZeroGUID_def)

section \<open>Properties of gpt.go\<close>

text \<open>
  Claim C9. For every partition entry, \<open>Size\<close> is \<open>EndingLBA - StartingLBA\<close> as an
  unsigned 64-bit value: the difference of the two numbers modulo \<open>2 ^ 64\<close>, which
  is the plain difference when the entry ends at or after its start and wraps
  around otherwise. \<open>Size\<close> has no failing branch: it is a total function into
  \<open>uint64\<close>.
\<close>

theorem Size_wraps:
  "uint (Size e) = (uint (EndingLBA e) - uint (StartingLBA e)) mod 2 ^ 64 \<and>
   unat (Size e) =
     (if StartingLBA e \<le> EndingLBA e then unat (EndingLBA e) - unat (StartingLBA e)
      else 2 ^ 64 + unat (EndingLBA e) - unat (StartingLBA e))"
proof
  show "uint (Size e) = (uint (EndingLBA e) - uint (StartingLBA e)) mod 2 ^ 64"
    by (simp add: Size_def uint_word_ariths)
next
  show "unat (Size e) =
     (if StartingLBA e \<le> EndingLBA e then unat (EndingLBA e) - unat (StartingLBA e)
      else 2 ^ 64 + unat (EndingLBA e) - unat (StartingLBA e))"
  proof (cases "StartingLBA e \<le> EndingLBA e")
    case True
    then show ?thesis by (simp add: Size_def unat_sub)
  next
    case False
    then have lt: "unat (EndingLBA e) < unat (StartingLBA e)"
      by (simp add: word_less_nat_alt not_le)
    have b: "unat (StartingLBA e) < 2 ^ 64"
      using unsigned_less [of "StartingLBA e", where 'a = nat] by simp
    have "unat (Size e) = (unat (EndingLBA e) + 2 ^ 64 - unat (StartingLBA e)) mod 2 ^ 64"
      using unat_sub_if' [of "EndingLBA e" "StartingLBA e"] lt b
      by (simp add: Size_def)
    with lt b False show ?thesis by simp
  qed
qed

subsection \<open>Bytes and strings\<close>

lemma byte_of_char_of: "(word_of_nat (of_char (char_of (unat (b::byte)))) :: byte) = b"
  using unsigned_less [of b, where 'a = nat] by (simp add: of_char_of)

lemma char_of_unat_of_char: "char_of (unat (of_char c :: byte)) = c"
proof -
  have "(of_char c :: byte) = word_of_nat (of_char c)"
    by (simp add: of_nat_of_char)
  moreover have "(of_char c :: nat) < 256"
    by (rule nat_of_char_less_256)
  ultimately have "unat (of_char c :: byte) = of_char c"
    by (simp add: unat_of_nat)
  then show ?thesis by simp
qed

lemma char_of_unat_eq_iff: "char_of (unat (b::byte)) = c \<longleftrightarrow> b = of_char c"
proof
  assume "char_of (unat b) = c"
  then have "(word_of_nat (of_char c) :: byte) = b"
    using byte_of_char_of [of b] by simp
  then show "b = of_char c" by (simp add: of_nat_of_char)
next
  assume "b = of_char c"
  then show "char_of (unat b) = c" by (simp add: char_of_unat_of_char)
qed

lemma string_of_bytes_of_string: "string_of_bytes (bytes_of_string s) = s"
  by (induction s) (simp_all add: string_of_bytes_def bytes_of_string_def char_of_unat_of_char)

lemma bytes_of_string_of_bytes: "bytes_of_string (string_of_bytes bs) = bs"
proof (induction bs)
  case Nil
  show ?case by (simp add: string_of_bytes_def bytes_of_string_def)
next
  case (Cons b bs)
  have "of_char (char_of (unat b)) = b"
    using char_of_unat_eq_iff [of b "char_of (unat b)"] by simp
  with Cons show ?case
    by (simp add: string_of_bytes_def bytes_of_string_def)
qed

lemma string_of_bytes_eq_iff: "string_of_bytes bs = s \<longleftrightarrow> bs = bytes_of_string s"
  using string_of_bytes_of_string bytes_of_string_of_bytes by auto

lemma bytes_EFI_PART:
  "bytes_of_string ''EFI PART'' = [0x45, 0x46, 0x49, 0x20, 0x50, 0x41, 0x52, 0x54]"
  by (simp add: bytes_of_string_def)

subsection \<open>\<open>Verify\<close>\<close>

lemma rangePadding_eq:
  "rangePadding bs = (if \<exists>b\<in>set bs. b \<noteq> 0 then Some PaddingCorrupted else None)"
  by (induction bs) auto

text \<open>
  Claim C4. \<open>Verify\<close> makes its checks in this order and returns the first that
  fails: (a) the signature bytes are the ASCII text \<open>EFI PART\<close>, else
  \<open>BadSignature\<close>; (b) the reserved field is zero, else \<open>ReservedFieldNonZero\<close>;
  (c) every padding byte is zero, else \<open>PaddingCorrupted\<close> (one byte anywhere in
  the padding is enough); (d) \<open>MyLBA\<close> is 1 and \<open>PartitionEntryLBA\<close> is 2, else
  \<open>UnsupportedLayout\<close>. A header that passes all four is accepted.
\<close>

theorem Verify_order:
  "(Signature g \<noteq> bytes_of_string ''EFI PART'' \<longrightarrow>
      Verify g = Some (BadSignature (string_of_bytes (Signature g)))) \<and>
   (Signature g = bytes_of_string ''EFI PART'' \<and> Reserved g \<noteq> 0 \<longrightarrow>
      Verify g = Some ReservedFieldNonZero) \<and>
   (Signature g = bytes_of_string ''EFI PART'' \<and> Reserved g = 0 \<and>
      (\<exists>i<length (Padding g). Padding g ! i \<noteq> 0) \<longrightarrow>
      Verify g = Some PaddingCorrupted) \<and>
   (Signature g = bytes_of_string ''EFI PART'' \<and> Reserved g = 0 \<and>
      (\<forall>i<length (Padding g). Padding g ! i = 0) \<and>
      (MyLBA g \<noteq> 1 \<or> PartitionEntryLBA g \<noteq> 2) \<longrightarrow>
      Verify g = Some UnsupportedLayout) \<and>
   (Signature g = bytes_of_string ''EFI PART'' \<and> Reserved g = 0 \<and>
      (\<forall>i<length (Padding g). Padding g ! i = 0) \<and>
      MyLBA g = 1 \<and> PartitionEntryLBA g = 2 \<longrightarrow>
      Verify g = None)"
proof -
  have sig: "string_of_bytes (Signature g) = ''EFI PART'' \<longleftrightarrow>
      Signature g = bytes_of_string ''EFI PART''"
    by (rule string_of_bytes_eq_iff)
  have pad: "(\<exists>b\<in>set (Padding g). b \<noteq> 0) \<longleftrightarrow> (\<exists>i<length (Padding g). Padding g ! i \<noteq> 0)"
    by (metis in_set_conv_nth)
  show ?thesis
    unfolding Verify_def verifyAlt_def rangePadding_eq sig pad by auto
qed

theorem Verify_order_witness:
  "Verify (exampleHeader\<lparr>Signature := [0, 0, 0, 0, 0, 0, 0, 0]\<rparr>)
     = Some (BadSignature (string_of_bytes [0, 0, 0, 0, 0, 0, 0, 0])) \<and>
   Verify (exampleHeader\<lparr>Reserved := 1, Padding := (replicate 420 0)[419 := 1], MyLBA := 5\<rparr>)
     = Some ReservedFieldNonZero \<and>
   Verify (exampleHeader\<lparr>Padding := (replicate 420 0)[419 := 1], MyLBA := 5\<rparr>)
     = Some PaddingCorrupted \<and>
   Verify (exampleHeader\<lparr>PartitionEntryLBA := 3\<rparr>) = Some UnsupportedLayout \<and>
   Verify exampleHeader = None"
proof -
  have p: "\<exists>i<420. (replicate 420 (0::byte))[419 := 1] ! i \<noteq> 0"
    by (rule exI [of _ 419]) simp
  show ?thesis
  using Verify_order [of "exampleHeader\<lparr>Signature := [0, 0, 0, 0, 0, 0, 0, 0]\<rparr>"]
    Verify_order [of "exampleHeader\<lparr>Reserved := 1, Padding := (replicate 420 0)[419 := 1], MyLBA := 5\<rparr>"]
    Verify_order [of "exampleHeader\<lparr>Padding := (replicate 420 0)[419 := 1], MyLBA := 5\<rparr>"]
    Verify_order [of "exampleHeader\<lparr>PartitionEntryLBA := 3\<rparr>"]
    Verify_order [of exampleHeader] p
  by (simp add: exampleHeader_def bytes_EFI_PART)
qed

text \<open>
  Claim C3. \<open>Verify\<close> should compute the CRC-32 of the header (with the checksum
  field zeroed) and of the partition array, compare them with \<open>HeaderCRC32\<close> and
  \<open>PartitionEntryArrayCRC32\<close>, and fail on a difference. It does not: the source
  leaves both as TODO, and the result of \<open>Verify\<close> does not depend on either
  stored checksum. The example header is accepted whatever the two fields hold;
  the header bytes with the checksum field zeroed are the same for every value of
  \<open>HeaderCRC32\<close>, so at most one value is the right checksum and every other one
  is accepted all the same.
\<close>

theorem Verify_ignores_checksums:
  "Verify (g\<lparr>HeaderCRC32 := c, PartitionEntryArrayCRC32 := d\<rparr>) = Verify g \<and>
   Verify (exampleHeader\<lparr>HeaderCRC32 := c, PartitionEntryArrayCRC32 := d\<rparr>) = None"
  by (simp add: Verify_def verifyAlt_def exampleHeader_def rangePadding_eq
      string_of_bytes_eq_iff bytes_EFI_PART)

theorem Verify_ignores_checksums_witness:
  "Verify (exampleHeader\<lparr>HeaderCRC32 := 0, PartitionEntryArrayCRC32 := 0\<rparr>) = None \<and>
   Verify (exampleHeader\<lparr>HeaderCRC32 := 1, PartitionEntryArrayCRC32 := 0\<rparr>) = None \<and>
   Verify (exampleHeader\<lparr>HeaderCRC32 := 0, PartitionEntryArrayCRC32 := 1\<rparr>) = None"
  by (intro conjI Verify_ignores_checksums [THEN conjunct2])

subsection \<open>\<open>GetName\<close>\<close>

lemma string_of_runes_HI: "string_of_runes (utf16_Decode [0x48, 0x49]) = ''HI''"
  by (simp add: string_of_runes_def string_of_bytes_def AppendRune_def char_of_def bit_iff_odd)

text \<open>The loop at index \<open>i\<close>, when no unit before \<open>i\<close> is zero.\<close>

lemma GetName_loop_inv:
  "i \<le> length name \<Longrightarrow> \<forall>j<i. name ! j \<noteq> 0 \<Longrightarrow>
   GetName_loop name i = string_of_runes (utf16_Decode (takeWhile (\<lambda>c. c \<noteq> 0) name))"
proof (induction name i rule: GetName_loop.induct)
  case (1 name i)
  show ?case
  proof (cases "i < length name")
    case False
    with "1.prems" have "i = length name" by simp
    with "1.prems" have "\<forall>c\<in>set name. c \<noteq> 0"
      by (auto simp: in_set_conv_nth)
    then have tw: "takeWhile (\<lambda>c. c \<noteq> 0) name = name"
      by (simp add: takeWhile_eq_all_conv)
    from False show ?thesis
      by (subst GetName_loop.simps) (simp add: tw)
  next
    case True
    show ?thesis
    proof (cases "name ! i = 0")
      case z: True
      have tw: "takeWhile (\<lambda>c. c \<noteq> 0) name = take i name"
        using "1.prems" True z by (intro takeWhile_eq_take_P_nth) auto
      show ?thesis
        using True z
        by (subst GetName_loop.simps) (auto simp: tw string_of_runes_def string_of_bytes_def)
    next
      case nz: False
      have "\<forall>j<Suc i. name ! j \<noteq> 0"
        using "1.prems" nz by (auto simp: less_Suc_eq)
      with "1.IH" [OF True refl nz] True
      have "GetName_loop name (Suc i)
          = string_of_runes (utf16_Decode (takeWhile (\<lambda>c. c \<noteq> 0) name))"
        by simp
      with True nz show ?thesis
        by (subst GetName_loop.simps) simp
    qed
  qed
qed

lemma GetName_takeWhile:
  "GetName e = string_of_runes (utf16_Decode (takeWhile (\<lambda>c. c \<noteq> 0) (PartitionName e)))"
  unfolding GetName_def by (rule GetName_loop_inv) simp_all

text \<open>
  Claim C7. For every name field of 36 code units, \<open>GetName\<close> is the text of the
  UTF-16 units before the first zero unit: a field whose first unit is zero
  gives the empty string, a field with no zero unit is decoded in full, and the
  field \<open>[0x0048, 0x0049, 0, ...]\<close> gives \<open>HI\<close>.
\<close>

theorem GetName_spec:
  "length (PartitionName e) = 36 \<Longrightarrow>
   GetName e = string_of_runes (utf16_Decode (takeWhile (\<lambda>c. c \<noteq> 0) (PartitionName e))) \<and>
   (PartitionName e ! 0 = 0 \<longrightarrow> GetName e = []) \<and>
   ((\<forall>i<36. PartitionName e ! i \<noteq> 0) \<longrightarrow>
      GetName e = string_of_runes (utf16_Decode (PartitionName e))) \<and>
   (take 3 (PartitionName e) = [0x48, 0x49, 0] \<longrightarrow> GetName e = ''HI'')"
proof (intro conjI impI)
  assume len: "length (PartitionName e) = 36"
  show "GetName e = string_of_runes (utf16_Decode (takeWhile (\<lambda>c. c \<noteq> 0) (PartitionName e)))"
    by (rule GetName_takeWhile)
  {
    assume "PartitionName e ! 0 = 0"
    with len have "takeWhile (\<lambda>c. c \<noteq> 0) (PartitionName e) = []"
      by (cases "PartitionName e") auto
    then show "GetName e = []"
      by (simp add: GetName_takeWhile string_of_runes_def string_of_bytes_def)
  }
  {
    assume "\<forall>i<36. PartitionName e ! i \<noteq> 0"
    with len have "\<forall>c\<in>set (PartitionName e). c \<noteq> 0"
      by (auto simp: in_set_conv_nth)
    then have tw: "takeWhile (\<lambda>c. c \<noteq> 0) (PartitionName e) = PartitionName e"
      by (simp add: takeWhile_eq_all_conv)
    show "GetName e = string_of_runes (utf16_Decode (PartitionName e))"
      by (simp only: GetName_takeWhile tw)
  }
  {
    assume t: "take 3 (PartitionName e) = [0x48, 0x49, 0]"
    have "PartitionName e = take 3 (PartitionName e) @ drop 3 (PartitionName e)"
      by simp
    with t have eq: "PartitionName e = [0x48, 0x49, 0] @ drop 3 (PartitionName e)"
      by simp
    have "takeWhile (\<lambda>c. c \<noteq> 0) (PartitionName e) = [0x48, 0x49]"
      by (subst eq) simp
    then show "GetName e = ''HI''"
      by (simp only: GetName_takeWhile string_of_runes_HI)
  }
qed

theorem GetName_spec_witness:
  "length (PartitionName exampleEntry) = 36 \<and>
   GetName exampleEntry = ''HI'' \<and>
   GetName (exampleEntry\<lparr>PartitionName := replicate 36 0\<rparr>) = [] \<and>
   GetName (exampleEntry\<lparr>PartitionName := replicate 36 0x41\<rparr>)
     = string_of_runes (utf16_Decode (replicate 36 0x41))"
proof -
  have l: "length (PartitionName exampleEntry) = 36"
    by (simp add: exampleEntry_def exampleName_def)
  have t: "take 3 (PartitionName exampleEntry) = [0x48, 0x49, 0]"
    by (simp add: exampleEntry_def exampleName_def)
  have a: "GetName exampleEntry = ''HI''"
    by (rule GetName_spec [OF l, THEN conjunct2, THEN conjunct2, THEN conjunct2, rule_format, OF t])
  have l0: "length (PartitionName (exampleEntry\<lparr>PartitionName := replicate 36 0\<rparr>)) = 36"
    by simp
  have z: "PartitionName (exampleEntry\<lparr>PartitionName := replicate 36 0\<rparr>) ! 0 = 0"
    by simp
  have b: "GetName (exampleEntry\<lparr>PartitionName := replicate 36 0\<rparr>) = []"
    by (rule GetName_spec [OF l0, THEN conjunct2, THEN conjunct1, rule_format, OF z])
  have l1: "length (PartitionName (exampleEntry\<lparr>PartitionName := replicate 36 0x41\<rparr>)) = 36"
    by simp
  have n: "\<forall>i<36. PartitionName (exampleEntry\<lparr>PartitionName := replicate 36 0x41\<rparr>) ! i \<noteq> 0"
    by simp
  have c: "GetName (exampleEntry\<lparr>PartitionName := replicate 36 0x41\<rparr>)
     = string_of_runes (utf16_Decode
         (PartitionName (exampleEntry\<lparr>PartitionName := replicate 36 0x41\<rparr>)))"
    by (rule GetName_spec [OF l1, THEN conjunct2, THEN conjunct2, THEN conjunct1, rule_format,
          OF n [rule_format]])
  from l a b c show ?thesis by simp
qed

subsection \<open>\<open>GetPartitions\<close>: before the first read\<close>

lemma unat_ucast_size: "unat (ucast (sz :: uint32) :: uint64) = unat sz"
proof -
  have "unat sz < 2 ^ 32"
    using unsigned_less [of sz, where 'a = nat] by simp
  then have "unat sz < 2 ^ 64"
    by simp
  then show ?thesis
    by (simp add: unsigned_ucast_eq take_bit_nat_eq_self)
qed

lemma ucast_size_eq_0: "(ucast (sz :: uint32) :: uint64) = 0 \<longleftrightarrow> sz = 0"
  using unat_ucast_size [of sz] by (metis unat_eq_0)

lemma block_mod_size:
  "LogicalBlockSize mod ucast (sz :: uint32) = 0 \<longleftrightarrow> 512 mod unat sz = 0"
proof -
  have "unat (LogicalBlockSize mod ucast sz) = 512 mod unat sz"
    by (simp add: LogicalBlockSize_def unat_mod unat_ucast_size)
  then show ?thesis
    by (metis unat_eq_0)
qed

lemma Seek_zeroDisk:
  "Seek bytesDevice (zeroDisk n) (LogicalBlockSize * 2)
     = (Inr (LogicalBlockSize * 2), \<lparr>rd_s = replicate n 0, rd_i = 1024\<rparr>)"
  by (simp add: bytesDevice_def bytes_Seek_def zeroDisk_def NewReader_def LogicalBlockSize_def)

text \<open>
  Claim C8. For every header whose \<open>SizeOfPartitionEntry\<close> is not zero and does
  not divide the block size of 512 bytes, \<open>GetPartitions\<close> fails with
  \<open>MisalignedEntrySize\<close> before it decodes any entry: after the seek to the
  partition array it returns the error with the device as the seek left it, so
  no block has been read.
\<close>

theorem GetPartitions_misaligned:
  "Seek R disk (LogicalBlockSize * PartitionEntryLBA g)
      = (Inr (LogicalBlockSize * PartitionEntryLBA g), disk1) \<Longrightarrow>
   SizeOfPartitionEntry g \<noteq> 0 \<Longrightarrow>
   \<not> unat (SizeOfPartitionEntry g) dvd 512 \<Longrightarrow>
   GetPartitions R g disk = Some (Inl MisalignedEntrySize, disk1)"
  by (simp add: GetPartitions_def ucast_size_eq_0 block_mod_size Let_def dvd_eq_mod_eq_0)

theorem GetPartitions_misaligned_witness:
  "GetPartitions bytesDevice (exampleHeader\<lparr>SizeOfPartitionEntry := 100\<rparr>) (zeroDisk 2048)
     = Some (Inl MisalignedEntrySize, \<lparr>rd_s = replicate 2048 0, rd_i = 1024\<rparr>)"
  using GetPartitions_misaligned [of bytesDevice "zeroDisk 2048"
      "exampleHeader\<lparr>SizeOfPartitionEntry := 100\<rparr>" "\<lparr>rd_s = replicate 2048 0, rd_i = 1024\<rparr>"]
    Seek_zeroDisk [of 2048]
  by (simp add: exampleHeader_def)

subsection \<open>\<open>GetPartitions\<close>: one block\<close>

lemma copyInto_full: "length got = length buf \<Longrightarrow> copyInto buf got = got"
  by (simp add: copyInto_def)

lemma bytes_ReadFull_ok:
  "0 < length buf \<Longrightarrow> rd_i r + length buf \<le> length (rd_s r) \<Longrightarrow>
   bytes_ReadFull r buf =
     ((length buf, None, take (length buf) (drop (rd_i r) (rd_s r))),
      r\<lparr>rd_i := rd_i r + length buf\<rparr>)"
  by (cases buf) (auto simp: bytes_ReadFull_def Let_def copyInto_full min_def)

lemma binary_Read_ok:
  "rd_i r + 128 \<le> length (rd_s r) \<Longrightarrow>
   binary_Read r = (Inr (decodeEntry (take 128 (drop (rd_i r) (rd_s r)))), r\<lparr>rd_i := rd_i r + 128\<rparr>)"
  by (simp add: binary_Read_def bytes_ReadFull_ok)

lemma checkPadding_eq:
  "checkPadding bs = (if \<exists>b\<in>set bs. b \<noteq> 0 then Some EntryPaddingCorrupted else None)"
  by (induction bs) auto

text \<open>The padding of an entry that lies inside the block: read in full, then
  every byte tested.\<close>

lemma readPadding_ok:
  assumes sz: "SizeOfPartitionEntry g = sz" and ge: "128 \<le> unat sz"
    and fit: "rd_i r + (unat sz - 128) \<le> length (rd_s r)"
  shows "readPadding g r =
     (if \<exists>b\<in>set (take (unat sz - 128) (drop (rd_i r) (rd_s r))). b \<noteq> 0
      then Inl EntryPaddingCorrupted
      else Inr (r\<lparr>rd_i := rd_i r + (unat sz - 128)\<rparr>))"
proof -
  have le: "(128 :: uint32) \<le> sz"
    using ge by (simp add: word_le_nat_alt)
  then have u: "unat (sz - 128) = unat sz - 128"
    by (simp add: unat_sub)
  show ?thesis
  proof (cases "sz = 128")
    case True
    then show ?thesis by (simp add: readPadding_def sz)
  next
    case False
    then have pos: "0 < sz - 128" 
      by (simp add: word_greater_zero_iff)
    then have "0 < unat sz - 128"
      using u by (simp add: word_less_nat_alt)
    then show ?thesis
      using fit pos
      by (simp add: readPadding_def sz Let_def bytes_ReadFull_ok u [symmetric] checkPadding_eq)
  qed
qed

lemma unat_Suc_less: "(i :: uint32) < p \<Longrightarrow> unat (i + 1) = Suc (unat i)"
proof -
  assume "i < p"
  then have "i \<noteq> - 1"
    by (metis word_order.extremum_strict)
  then have "1 + i \<noteq> 0"
    by (metis add.commute add_eq_0_iff)
  then show ?thesis
    using unatSuc [of i] by (simp add: add.commute)
qed

text \<open>The inner loop over a whole block whose entries have room for the 128 fixed
  bytes: it stops at the first slot with a byte set in its padding, and otherwise
  appends every slot from \<open>i\<close> on and counts \<open>partitionsLeft\<close> down by their
  number.\<close>

lemma entryLoop_block:
  assumes sz: "SizeOfPartitionEntry g = sz" and ge: "128 \<le> unat sz"
    and prod: "unat sz * unat ppb = 512" and len: "length blk = 512"
  shows "i \<le> ppb \<Longrightarrow>
     entryLoop g ppb i \<lparr>rd_s = blk, rd_i = unat i * unat sz\<rparr> parts left =
       (if \<exists>j. unat i \<le> j \<and> j < unat ppb \<and> (\<exists>b\<in>set (paddingAt (unat sz) blk j). b \<noteq> 0)
        then Inl EntryPaddingCorrupted
        else Inr (parts @ map (entryAt (unat sz) blk) [unat i..<unat ppb], left - (ppb - i)))"
proof (induction "unat ppb - unat i" arbitrary: i parts left)
  case 0
  then have "i = ppb"
    by (simp add: word_le_nat_alt word_unat_eq_iff)
  then show ?case
    by (subst entryLoop.simps) simp
next
  case (Suc n)
  let ?k = "unat i" and ?s = "unat sz" and ?p = "unat ppb"
  from Suc.hyps(2) have klt: "?k < ?p" by simp
  then have lt: "i < ppb" by (simp add: word_less_nat_alt)
  have suc: "unat (i + 1) = Suc ?k" by (rule unat_Suc_less [OF lt])
  have "Suc ?k * ?s \<le> ?p * ?s"
    using klt by (intro mult_le_mono1) simp
  then have fit: "?k * ?s + ?s \<le> 512"
    using prod by (simp add: mult.commute)
  have rd: "binary_Read \<lparr>rd_s = blk, rd_i = ?k * ?s\<rparr>
      = (Inr (entryAt ?s blk ?k), \<lparr>rd_s = blk, rd_i = ?k * ?s + 128\<rparr>)"
    using fit ge len by (simp add: binary_Read_ok entryAt_def)
  have pad: "readPadding g \<lparr>rd_s = blk, rd_i = ?k * ?s + 128\<rparr> =
      (if \<exists>b\<in>set (paddingAt ?s blk ?k). b \<noteq> 0 then Inl EntryPaddingCorrupted
       else Inr \<lparr>rd_s = blk, rd_i = Suc ?k * ?s\<rparr>)"
    using fit ge len readPadding_ok [OF sz ge, of "\<lparr>rd_s = blk, rd_i = ?k * ?s + 128\<rparr>"]
    by (simp add: paddingAt_def)
  show ?case
  proof (cases "\<exists>b\<in>set (paddingAt ?s blk ?k). b \<noteq> 0")
    case True
    then have "\<exists>j. ?k \<le> j \<and> j < ?p \<and> (\<exists>b\<in>set (paddingAt ?s blk j). b \<noteq> 0)"
      using klt by blast
    then show ?thesis
      using lt True by (subst entryLoop.simps) (simp add: rd pad)
  next
    case False
    have n: "n = ?p - unat (i + 1)"
      using Suc.hyps(2) suc by simp
    have le: "i + 1 \<le> ppb"
      using lt by (rule inc_le)
    have IH: "entryLoop g ppb (i + 1) \<lparr>rd_s = blk, rd_i = Suc ?k * ?s\<rparr> (parts @ [entryAt ?s blk ?k]) (left - 1) =
       (if \<exists>j. Suc ?k \<le> j \<and> j < ?p \<and> (\<exists>b\<in>set (paddingAt ?s blk j). b \<noteq> 0)
        then Inl EntryPaddingCorrupted
        else Inr ((parts @ [entryAt ?s blk ?k]) @ map (entryAt ?s blk) [Suc ?k..<?p], left - 1 - (ppb - (i + 1))))"
      using Suc.hyps(1) [OF n le, of "parts @ [entryAt ?s blk ?k]" "left - 1"] unfolding suc .
    have ex: "(\<exists>j. ?k \<le> j \<and> j < ?p \<and> (\<exists>b\<in>set (paddingAt ?s blk j). b \<noteq> 0)) \<longleftrightarrow>
        (\<exists>j. Suc ?k \<le> j \<and> j < ?p \<and> (\<exists>b\<in>set (paddingAt ?s blk j). b \<noteq> 0))"
      using False by (metis Suc_leI le_neq_implies_less Suc_leD)
    have upt: "[?k..<?p] = ?k # [Suc ?k..<?p]"
      using klt by (rule upt_conv_Cons)
    have step: "entryLoop g ppb i \<lparr>rd_s = blk, rd_i = ?k * ?s\<rparr> parts left
        = entryLoop g ppb (i + 1) \<lparr>rd_s = blk, rd_i = Suc ?k * ?s\<rparr> (parts @ [entryAt ?s blk ?k]) (left - 1)"
      using lt False by (subst entryLoop.simps) (simp add: rd pad)
    show ?thesis
      unfolding step IH ex upt by auto
  qed
qed

subsection \<open>\<open>GetPartitions\<close>: the loop over the blocks\<close>

lemma length_copyInto: "length (copyInto buf got) = length buf"
  by (simp add: copyInto_def)

lemma unat_LogicalBlockSize: "unat LogicalBlockSize = 512"
  by (simp add: LogicalBlockSize_def)

lemma blockLoop_ok:
  assumes sz: "SizeOfPartitionEntry g = sz" and ge: "128 \<le> unat sz"
    and prod: "unat sz * unat ppb = 512"
  shows "deviceBlocks R n disk = Some (blks, disk') \<Longrightarrow> unat left = n * unat ppb \<Longrightarrow>
     \<forall>blk\<in>set blks. \<forall>j<unat ppb. \<forall>b\<in>set (paddingAt (unat sz) blk j). b = 0 \<Longrightarrow>
     blockLoop R g ppb disk parts left =
       Some (Inr (parts @ concat (map (\<lambda>blk. map (entryAt (unat sz) blk) [0..<unat ppb]) blks)), disk')"
proof (induction n arbitrary: disk parts left blks)
  case 0
  then have "left = 0" by (simp add: unat_eq_0)
  with 0 show ?case
    by (subst blockLoop.simps) simp
next
  case (Suc n)
  from Suc.prems(1) obtain got d1 rest where
    rd: "ReadFull R disk 512 = (Inr got, d1)" and
    rest: "deviceBlocks R n d1 = Some (rest, disk')" and
    blks: "blks = copyInto (replicate 512 0) got # rest"
    by (auto split: prod.splits sum.splits option.splits)
  let ?blk = "copyInto (replicate 512 0) got"
  have p: "0 < unat ppb"
    using prod by (cases "unat ppb = 0") simp_all
  then have pos: "0 < left"
    using Suc.prems(2) by (simp add: word_less_nat_alt)
  have le: "ppb \<le> left"
    using Suc.prems(2) by (simp add: word_le_nat_alt)
  then have u: "unat (left - ppb) = n * unat ppb"
    using Suc.prems(2) by (simp add: unat_sub)
  have nobad: "\<not> (\<exists>j. unat (0::uint32) \<le> j \<and> j < unat ppb \<and> (\<exists>b\<in>set (paddingAt (unat sz) ?blk j). b \<noteq> 0))"
    using Suc.prems(3) blks by auto
  have el: "entryLoop g ppb 0 (NewReader ?blk) parts left
      = Inr (parts @ map (entryAt (unat sz) ?blk) [0..<unat ppb], left - ppb)"
    using entryLoop_block [OF sz ge prod, of ?blk 0 parts left] nobad
    by (simp add: NewReader_def length_copyInto)
  have IH: "blockLoop R g ppb d1 (parts @ map (entryAt (unat sz) ?blk) [0..<unat ppb]) (left - ppb)
      = Some (Inr ((parts @ map (entryAt (unat sz) ?blk) [0..<unat ppb]) @
           concat (map (\<lambda>blk. map (entryAt (unat sz) blk) [0..<unat ppb]) rest)), disk')"
    using Suc.prems(3) blks by (intro Suc.IH [OF rest u]) simp
  show ?case
    using pos by (subst blockLoop.simps) (simp add: unat_LogicalBlockSize rd el IH blks)
qed

lemma blockLoop_bad:
  assumes sz: "SizeOfPartitionEntry g = sz" and ge: "128 \<le> unat sz"
    and prod: "unat sz * unat ppb = 512"
  shows "deviceBlocks R (Suc b) disk = Some (blks, disk') \<Longrightarrow> b * unat ppb < unat left \<Longrightarrow>
     j < unat ppb \<Longrightarrow> \<exists>x\<in>set (paddingAt (unat sz) (blks ! b) j). x \<noteq> 0 \<Longrightarrow>
     \<exists>d. blockLoop R g ppb disk parts left = Some (Inl EntryPaddingCorrupted, d)"
proof (induction b arbitrary: disk parts left blks)
  case 0
  from "0.prems"(1) obtain got d1 where
    rd: "ReadFull R disk 512 = (Inr got, d1)" and
    blks: "blks = [copyInto (replicate 512 0) got]"
    by (auto split: prod.splits sum.splits option.splits)
  let ?blk = "copyInto (replicate 512 0) got"
  have pos: "0 < left"
    using "0.prems"(2) by (simp add: word_less_nat_alt)
  have bad: "\<exists>j. unat (0::uint32) \<le> j \<and> j < unat ppb \<and> (\<exists>b\<in>set (paddingAt (unat sz) ?blk j). b \<noteq> 0)"
    using "0.prems"(3,4) blks by auto
  have el: "entryLoop g ppb 0 (NewReader ?blk) parts left = Inl EntryPaddingCorrupted"
    using entryLoop_block [OF sz ge prod, of ?blk 0 parts left] bad
    by (simp add: NewReader_def length_copyInto)
  show ?case
    using pos by (subst blockLoop.simps) (simp add: unat_LogicalBlockSize rd el)
next
  case (Suc b)
  from Suc.prems(1) obtain got d1 rest where
    rd: "ReadFull R disk 512 = (Inr got, d1)" and
    rest: "deviceBlocks R (Suc b) d1 = Some (rest, disk')" and
    blks: "blks = copyInto (replicate 512 0) got # rest"
    by (auto split: prod.splits sum.splits option.splits)
  let ?blk = "copyInto (replicate 512 0) got"
  have pos: "0 < left"
    using Suc.prems(2) by (simp add: word_less_nat_alt)
  have le: "ppb \<le> left"
    using Suc.prems(2) by (simp add: word_le_nat_alt)
  then have u: "b * unat ppb < unat (left - ppb)"
    using Suc.prems(2) by (simp add: unat_sub)
  have bad: "\<exists>x\<in>set (paddingAt (unat sz) (rest ! b) j). x \<noteq> 0"
    using Suc.prems(4) blks by simp
  have el: "entryLoop g ppb 0 (NewReader ?blk) parts left = Inl EntryPaddingCorrupted \<or>
      entryLoop g ppb 0 (NewReader ?blk) parts left
        = Inr (parts @ map (entryAt (unat sz) ?blk) [0..<unat ppb], left - ppb)"
    using entryLoop_block [OF sz ge prod, of ?blk 0 parts left]
    by (simp add: NewReader_def length_copyInto)
  then show ?case
  proof
    assume "entryLoop g ppb 0 (NewReader ?blk) parts left = Inl EntryPaddingCorrupted"
    then show ?thesis
      using pos by (subst blockLoop.simps) (simp add: unat_LogicalBlockSize rd)
  next
    assume e: "entryLoop g ppb 0 (NewReader ?blk) parts left
        = Inr (parts @ map (entryAt (unat sz) ?blk) [0..<unat ppb], left - ppb)"
    from Suc.IH [OF rest u Suc.prems(3) bad]
    obtain d where "blockLoop R g ppb d1 (parts @ map (entryAt (unat sz) ?blk) [0..<unat ppb]) (left - ppb)
        = Some (Inl EntryPaddingCorrupted, d)"
      by blast
    then show ?thesis
      using pos by (subst blockLoop.simps) (simp add: unat_LogicalBlockSize rd e)
  qed
qed

lemma unat_ppb:
  assumes nz: "sz \<noteq> 0"
  shows "unat (ucast (LogicalBlockSize div ucast (sz :: uint32)) :: uint32) = 512 div unat sz"
proof -
  have "unat (LogicalBlockSize div ucast sz) = 512 div unat sz"
    by (simp add: LogicalBlockSize_def unat_div unat_ucast_size)
  moreover have "512 div unat sz \<le> 512"
    by simp
  then have "512 div unat sz < 2 ^ 32"
    by (rule le_less_trans) simp
  ultimately show ?thesis
    by (simp add: unsigned_ucast_eq take_bit_nat_eq_self)
qed

text \<open>Whatever the block holds: when the inner loop returns without an error it
  has run to \<open>partitionsPerBlock\<close>.\<close>

lemma entryLoop_Inr:
  "entryLoop g ppb i r parts left = Inr (parts', left') \<Longrightarrow> i \<le> ppb \<Longrightarrow>
   left' = left - (ppb - i) \<and> length parts' = length parts + unat (ppb - i)"
proof (induction g ppb i r parts left rule: entryLoop.induct)
  case (1 g ppb i r parts left)
  show ?case
  proof (cases "i < ppb")
    case False
    with "1.prems" have "i = ppb" by simp
    with "1.prems"(1) show ?thesis
      by (subst (asm) entryLoop.simps) simp
  next
    case True
    from "1.prems"(1) True obtain p r' r'' where
      rd: "binary_Read r = (Inr p, r')" and pad: "readPadding g r' = Inr r''" and
      rec: "entryLoop g ppb (i + 1) r'' (parts @ [p]) (left - 1) = Inr (parts', left')"
      by (subst (asm) entryLoop.simps) (auto split: prod.splits sum.splits)
    have le: "i + 1 \<le> ppb"
      using True by (rule inc_le)
    from "1.IH" [OF True rd [symmetric] refl pad rec le]
    have IH: "left' = left - 1 - (ppb - (i + 1))"
      and IHl: "length parts' = length (parts @ [p]) + unat (ppb - (i + 1))"
      by simp_all
    have "unat (ppb - i) = Suc (unat (ppb - (i + 1)))"
    proof -
      have a: "unat (ppb - i) = unat ppb - unat i"
        using True by (simp add: unat_sub)
      have b: "unat (ppb - (i + 1)) = unat ppb - Suc (unat i)"
        using le unat_Suc_less [OF True] by (simp add: unat_sub)
      have "unat i < unat ppb"
        using True by (simp add: word_less_nat_alt)
      with a b show ?thesis by simp
    qed
    with IH IHl show ?thesis by simp
  qed
qed

lemma dvd_unat_sub:
  assumes p: "unat (ppb :: uint32) dvd 2 ^ 32" and d: "unat ppb dvd unat (left - ppb)"
  shows "unat ppb dvd unat left"
proof (cases "unat ppb \<le> unat left")
  case True
  then have "unat (left - ppb) = unat left - unat ppb"
    by (simp add: unat_sub_if')
  with d have "unat ppb dvd unat left - unat ppb"
    by simp
  then show ?thesis
    using True by (rule dvd_diffD [OF _ dvd_refl])
next
  case False
  have b: "unat ppb < 2 ^ 32"
    using unsigned_less [of ppb, where 'a = nat] by simp
  from False have "unat (left - ppb) = unat left + 2 ^ 32 - unat ppb"
    by (simp add: unat_sub_if')
  with d have "unat ppb dvd unat left + 2 ^ 32 - unat ppb"
    by simp
  moreover have "unat ppb \<le> unat left + 2 ^ 32"
    using b by simp
  ultimately have "unat ppb dvd unat left + 2 ^ 32"
    by (rule dvd_diffD [OF _ dvd_refl])
  with p show ?thesis
    by (simp add: dvd_add_left_iff)
qed

text \<open>The outer loop returns entries only from a \<open>partitionsLeft\<close> that is a
  multiple of \<open>partitionsPerBlock\<close>: the count goes down by a whole block at a
  time and has to pass through zero exactly. By induction over the approximations
  of the loop.\<close>

lemma blockLoop_Inr_aux:
  assumes run: "blockLoop R g ppb disk parts left = Some y"
  shows "unat ppb dvd 2 ^ 32 \<longrightarrow>
     (\<forall>ps d. y = (Inr ps, d) \<longrightarrow>
        unat ppb dvd unat left \<and> length ps = length parts + unat left)"
proof (rule blockLoop.raw_induct [where P = "\<lambda>R g ppb disk parts left y.
    unat ppb dvd 2 ^ 32 \<longrightarrow>
     (\<forall>ps d. y = (Inr ps, d) \<longrightarrow>
        unat ppb dvd unat left \<and> length ps = length parts + unat left)", OF _ run])
  fix loop :: "'a ReadSeeker \<Rightarrow> GPTHeader \<Rightarrow> uint32 \<Rightarrow> 'a \<Rightarrow> GPTPartitionEntry list \<Rightarrow> uint32
      \<Rightarrow> ((error + GPTPartitionEntry list) \<times> 'a) option"
    and R g ppb disk parts left y
  assume IH: "\<And>R g ppb disk parts left y. loop R g ppb disk parts left = Some y \<Longrightarrow>
      unat ppb dvd 2 ^ 32 \<longrightarrow>
       (\<forall>ps d. y = (Inr ps, d) \<longrightarrow>
          unat ppb dvd unat left \<and> length ps = length parts + unat left)"
    and eq: "(if 0 < left then
        (case ReadFull R disk (unat LogicalBlockSize) of
           (Inl err, disk') \<Rightarrow> Some (Inl (IO err), disk')
         | (Inr got, disk') \<Rightarrow>
             (case entryLoop g ppb 0
                     (NewReader (copyInto (replicate (unat LogicalBlockSize) 0) got))
                     parts left of
                Inl err \<Rightarrow> Some (Inl err, disk')
              | Inr (partitions', partitionsLeft') \<Rightarrow>
                  loop R g ppb disk' partitions' partitionsLeft'))
      else Some (Inr parts, disk)) = Some y"
  show "unat ppb dvd 2 ^ 32 \<longrightarrow>
     (\<forall>ps d. y = (Inr ps, d) \<longrightarrow>
        unat ppb dvd unat left \<and> length ps = length parts + unat left)"
  proof (intro impI allI)
    fix ps d
    assume p: "unat ppb dvd 2 ^ 32" and y: "y = (Inr ps, d)"
    show "unat ppb dvd unat left \<and> length ps = length parts + unat left"
    proof (cases "0 < left")
      case False
      then have "left = 0" by (simp add: word_greater_zero_iff)
      with y eq show ?thesis by auto
    next
      case True
      with eq y obtain got disk' parts' left' where
        rd: "ReadFull R disk (unat LogicalBlockSize) = (Inr got, disk')" and
        el: "entryLoop g ppb 0 (NewReader (copyInto (replicate (unat LogicalBlockSize) 0) got))
               parts left = Inr (parts', left')" and
        rec: "loop R g ppb disk' parts' left' = Some y"
        by (auto split: prod.splits sum.splits)
      from entryLoop_Inr [OF el] have l': "left' = left - ppb"
        and len: "length parts' = length parts + unat ppb"
        by simp_all
      from IH [OF rec] p y
      have d': "unat ppb dvd unat (left - ppb)"
        and n: "length ps = length parts' + unat (left - ppb)"
        unfolding l' by simp_all
      have dv: "unat ppb dvd unat left"
        by (rule dvd_unat_sub [OF p d'])
      have "0 < unat left"
        using True by (simp add: word_less_nat_alt)
      with dv have le: "unat ppb \<le> unat left"
        by (simp add: dvd_imp_le)
      then have "unat (left - ppb) = unat left - unat ppb"
        by (simp add: unat_sub_if')
      with n len dv le show ?thesis by simp
    qed
  qed
qed

lemma ppb_facts:
  assumes nz: "sz \<noteq> 0" and dv: "unat sz dvd 512"
  shows "unat sz * unat (ucast (LogicalBlockSize div ucast (sz :: uint32)) :: uint32) = 512"
    and "unat (ucast (LogicalBlockSize div ucast sz) :: uint32) dvd 2 ^ 32"
proof -
  have u: "unat (ucast (LogicalBlockSize div ucast sz) :: uint32) = 512 div unat sz"
    by (rule unat_ppb [OF nz])
  show m: "unat sz * unat (ucast (LogicalBlockSize div ucast sz) :: uint32) = 512"
    using dv by (simp add: u)
  have "unat (ucast (LogicalBlockSize div ucast sz) :: uint32) dvd 512"
    using m by (metis dvd_triv_right)
  moreover have "(512 :: nat) dvd 2 ^ 32"
    by simp
  ultimately show "unat (ucast (LogicalBlockSize div ucast sz) :: uint32) dvd 2 ^ 32"
    by (rule dvd_trans)
qed

lemma GetPartitions_blockLoop:
  "Seek R disk (LogicalBlockSize * PartitionEntryLBA g)
      = (Inr (LogicalBlockSize * PartitionEntryLBA g), disk1) \<Longrightarrow>
   SizeOfPartitionEntry g \<noteq> 0 \<Longrightarrow> unat (SizeOfPartitionEntry g) dvd 512 \<Longrightarrow>
   GetPartitions R g disk =
     blockLoop R g (ucast (LogicalBlockSize div ucast (SizeOfPartitionEntry g))) disk1 []
       (MaxNumberPartitionEntries g)"
  by (simp add: GetPartitions_def ucast_size_eq_0 block_mod_size Let_def dvd_eq_mod_eq_0)

lemma GetPartitions_Inr_blockLoop:
  assumes "GetPartitions R g disk = Some (Inr ps, d)"
  shows "SizeOfPartitionEntry g \<noteq> 0 \<and> unat (SizeOfPartitionEntry g) dvd 512 \<and>
    (\<exists>disk1. blockLoop R g (ucast (LogicalBlockSize div ucast (SizeOfPartitionEntry g))) disk1 []
       (MaxNumberPartitionEntries g) = Some (Inr ps, d))"
  using assms
  by (auto simp: GetPartitions_def ucast_size_eq_0 block_mod_size Let_def dvd_eq_mod_eq_0
      split: prod.splits sum.splits if_splits)

subsection \<open>\<open>GetPartitions\<close> on a disk image in memory\<close>

lemma bytes_ReadFullN_ok:
  "0 < n \<Longrightarrow> rd_i r + n \<le> length (rd_s r) \<Longrightarrow>
   ReadFull bytesDevice r n = (Inr (take n (drop (rd_i r) (rd_s r))), r\<lparr>rd_i := rd_i r + n\<rparr>)"
  by (simp add: bytesDevice_def bytes_ReadFullN_def bytes_ReadFull_ok)

lemma bytes_ReadFullN_EOF:
  "0 < n \<Longrightarrow> length (rd_s r) \<le> rd_i r \<Longrightarrow> ReadFull bytesDevice r n = (Inl EOF, r)"
  by (simp add: bytesDevice_def bytes_ReadFullN_def bytes_ReadFull_def)

lemma Seek_bytesDevice:
  "Seek bytesDevice (NewReader s) (LogicalBlockSize * 2)
     = (Inr (LogicalBlockSize * 2), \<lparr>rd_s = s, rd_i = 1024\<rparr>)"
  by (simp add: bytesDevice_def bytes_Seek_def NewReader_def LogicalBlockSize_def)

lemma entryLoop_128:
  assumes sz: "SizeOfPartitionEntry g = 128" and len: "length blk = 512"
  shows "entryLoop g 4 0 (NewReader blk) parts left
    = Inr (parts @ map (entryAt 128 blk) [0..<4], left - 4)"
  using entryLoop_block [OF sz _ _ len, of 4 0 parts left]
  by (simp add: NewReader_def paddingAt_def)

subsection \<open>\<open>GetPartitions\<close>: the division by the entry size\<close>

lemma readPadding_no_panic: "readPadding g r \<noteq> Inl PanicDivideByZero"
  by (auto simp: readPadding_def Let_def checkPadding_eq split: prod.splits option.splits if_splits)

lemma entryLoop_no_panic: "entryLoop g ppb i r parts left \<noteq> Inl PanicDivideByZero"
proof (induction g ppb i r parts left rule: entryLoop.induct)
  case (1 g ppb i r parts left)
  show ?case
  proof (cases "i < ppb")
    case False
    then show ?thesis by (subst entryLoop.simps) simp
  next
    case True
    show ?thesis
    proof (cases "binary_Read r")
      case (Pair res r')
      show ?thesis
      proof (cases res)
        case (Inl err)
        with True Pair show ?thesis by (subst entryLoop.simps) simp
      next
        case (Inr p)
        show ?thesis
        proof (cases "readPadding g r'")
          case (Inl err)
          with readPadding_no_panic [of g r'] have "err \<noteq> PanicDivideByZero" by auto
          with True Pair Inr Inl show ?thesis by (subst entryLoop.simps) simp
        next
          case r'': (Inr r'')
          from "1.IH" [OF True Pair [symmetric] Inr r''] True Pair Inr r'' show ?thesis
            by (subst entryLoop.simps) simp
        qed
      qed
    qed
  qed
qed

lemma blockLoop_no_panic:
  assumes run: "blockLoop R g ppb disk parts left = Some y"
  shows "fst y \<noteq> Inl PanicDivideByZero"
proof (rule blockLoop.raw_induct [where P = "\<lambda>R g ppb disk parts left y. fst y \<noteq> Inl PanicDivideByZero",
    OF _ run])
  fix loop :: "'a ReadSeeker \<Rightarrow> GPTHeader \<Rightarrow> uint32 \<Rightarrow> 'a \<Rightarrow> GPTPartitionEntry list \<Rightarrow> uint32
      \<Rightarrow> ((error + GPTPartitionEntry list) \<times> 'a) option"
    and R g ppb disk parts left y
  assume IH: "\<And>R g ppb disk parts left y. loop R g ppb disk parts left = Some y \<Longrightarrow>
      fst y \<noteq> Inl PanicDivideByZero"
    and eq: "(if 0 < left then
        (case ReadFull R disk (unat LogicalBlockSize) of
           (Inl err, disk') \<Rightarrow> Some (Inl (IO err), disk')
         | (Inr got, disk') \<Rightarrow>
             (case entryLoop g ppb 0
                     (NewReader (copyInto (replicate (unat LogicalBlockSize) 0) got))
                     parts left of
                Inl err \<Rightarrow> Some (Inl err, disk')
              | Inr (partitions', partitionsLeft') \<Rightarrow>
                  loop R g ppb disk' partitions' partitionsLeft'))
      else Some (Inr parts, disk)) = Some y"
  show "fst y \<noteq> Inl PanicDivideByZero"
    using eq IH entryLoop_no_panic
    by (auto split: if_splits prod.splits sum.splits)
qed

text \<open>
  Claim C5. \<open>GetPartitions\<close> divides the block size by \<open>SizeOfPartitionEntry\<close>
  before it tests the remainder, and nothing guards the division. For a header
  whose \<open>SizeOfPartitionEntry\<close> is zero the \<open>MisalignedEntrySize\<close> error is
  therefore never the result, whatever the device does, and once the seek to the
  partition array has succeeded the call ends in the division by zero, with the
  device as the seek left it. For every other header the call never ends in that
  panic.
\<close>

theorem GetPartitions_zero_entry_size:
  "(SizeOfPartitionEntry g = 0 \<longrightarrow>
      (\<forall>disk'. GetPartitions R g disk \<noteq> Some (Inl MisalignedEntrySize, disk')) \<and>
      (Seek R disk (LogicalBlockSize * PartitionEntryLBA g)
         = (Inr (LogicalBlockSize * PartitionEntryLBA g), disk1) \<longrightarrow>
       GetPartitions R g disk = Some (Inl PanicDivideByZero, disk1))) \<and>
   (SizeOfPartitionEntry g \<noteq> 0 \<longrightarrow>
      (\<forall>disk'. GetPartitions R g disk \<noteq> Some (Inl PanicDivideByZero, disk')))"
proof (intro conjI impI allI)
  assume z: "SizeOfPartitionEntry g = 0"
  show "GetPartitions R g disk \<noteq> Some (Inl MisalignedEntrySize, disk')" for disk'
    using z by (auto simp: GetPartitions_def split: prod.splits sum.splits)
  show "GetPartitions R g disk = Some (Inl PanicDivideByZero, disk1)"
    if "Seek R disk (LogicalBlockSize * PartitionEntryLBA g)
         = (Inr (LogicalBlockSize * PartitionEntryLBA g), disk1)"
    using z that by (simp add: GetPartitions_def)
next
  fix disk'
  assume nz: "SizeOfPartitionEntry g \<noteq> 0"
  show "GetPartitions R g disk \<noteq> Some (Inl PanicDivideByZero, disk')"
  proof
    assume "GetPartitions R g disk = Some (Inl PanicDivideByZero, disk')"
    with nz obtain d where
      "blockLoop R g (ucast (LogicalBlockSize div ucast (SizeOfPartitionEntry g))) d []
        (MaxNumberPartitionEntries g) = Some (Inl PanicDivideByZero, disk')"
      by (auto simp: GetPartitions_def ucast_size_eq_0 Let_def
          split: prod.splits sum.splits if_splits)
    from blockLoop_no_panic [OF this] show False by simp
  qed
qed

theorem GetPartitions_zero_entry_size_witness:
  "GetPartitions bytesDevice (exampleHeader\<lparr>SizeOfPartitionEntry := 0\<rparr>) (zeroDisk 2048)
     = Some (Inl PanicDivideByZero, \<lparr>rd_s = replicate 2048 0, rd_i = 1024\<rparr>) \<and>
   GetPartitions bytesDevice (exampleHeader\<lparr>SizeOfPartitionEntry := 0\<rparr>) (zeroDisk 2048)
     \<noteq> Some (Inl MisalignedEntrySize, \<lparr>rd_s = replicate 2048 0, rd_i = 1024\<rparr>) \<and>
   GetPartitions bytesDevice exampleHeader (zeroDisk 2048)
     \<noteq> Some (Inl PanicDivideByZero, \<lparr>rd_s = replicate 2048 0, rd_i = 1536\<rparr>)"
  using GetPartitions_zero_entry_size [of "exampleHeader\<lparr>SizeOfPartitionEntry := 0\<rparr>"
      bytesDevice "zeroDisk 2048" "\<lparr>rd_s = replicate 2048 0, rd_i = 1024\<rparr>"]
    GetPartitions_zero_entry_size [of exampleHeader bytesDevice "zeroDisk 2048"]
    Seek_zeroDisk [of 2048]
  by (simp add: exampleHeader_def)

subsection \<open>\<open>GetPartitions\<close>: the padding of an entry\<close>

text \<open>
  Claim C6. For every partition entry whose trailing padding (the bytes of its
  slot after the 128 fixed bytes) holds a byte that is not zero,
  \<open>GetPartitions\<close> fails with \<open>EntryPaddingCorrupted\<close>, whatever the fixed fields
  hold. The entry is slot \<open>k\<close> of the table, \<open>k\<close> below the header's entry
  count; the seek has succeeded and the device hands out the blocks up to the one
  that holds the slot. Nothing is assumed about the 128 fixed bytes of any entry.
\<close>

theorem GetPartitions_entry_padding:
  assumes seek: "Seek R disk (LogicalBlockSize * PartitionEntryLBA g)
      = (Inr (LogicalBlockSize * PartitionEntryLBA g), disk1)"
    and ge: "128 \<le> unat (SizeOfPartitionEntry g)"
    and dv: "unat (SizeOfPartitionEntry g) dvd 512"
    and k: "k < unat (MaxNumberPartitionEntries g)"
    and blocks: "deviceBlocks R (Suc (k div (512 div unat (SizeOfPartitionEntry g)))) disk1
      = Some (blks, disk2)"
    and bad: "\<exists>x\<in>set (paddingAt (unat (SizeOfPartitionEntry g))
        (blks ! (k div (512 div unat (SizeOfPartitionEntry g))))
        (k mod (512 div unat (SizeOfPartitionEntry g)))). x \<noteq> 0"
  shows "\<exists>disk'. GetPartitions R g disk = Some (Inl EntryPaddingCorrupted, disk')"
proof -
  let ?sz = "SizeOfPartitionEntry g"
  let ?ppb = "ucast (LogicalBlockSize div ucast ?sz) :: uint32"
  have nz: "?sz \<noteq> 0"
    using ge by auto
  have u: "unat ?ppb = 512 div unat ?sz"
    by (rule unat_ppb [OF nz])
  have prod: "unat ?sz * unat ?ppb = 512"
    by (rule ppb_facts(1) [OF nz dv])
  have p: "0 < unat ?ppb"
    using prod by (cases "unat ?ppb = 0") simp_all
  have lt: "k div unat ?ppb * unat ?ppb < unat (MaxNumberPartitionEntries g)"
    using k by (rule le_less_trans [rotated]) simp
  have j: "k mod unat ?ppb < unat ?ppb"
    using p by simp
  from blockLoop_bad [OF refl ge prod, of R "k div unat ?ppb" disk1 blks disk2
      "MaxNumberPartitionEntries g" "k mod unat ?ppb" "[]"] blocks bad lt j
  have "\<exists>d. blockLoop R g ?ppb disk1 [] (MaxNumberPartitionEntries g)
      = Some (Inl EntryPaddingCorrupted, d)"
    unfolding u by simp
  then show ?thesis
    by (simp add: GetPartitions_blockLoop [OF seek nz dv])
qed

theorem GetPartitions_entry_padding_witness:
  "\<exists>disk'. GetPartitions bytesDevice (exampleHeader\<lparr>SizeOfPartitionEntry := 256\<rparr>) badDisk
     = Some (Inl EntryPaddingCorrupted, disk')"
proof -
  let ?g = "exampleHeader\<lparr>SizeOfPartitionEntry := 256\<rparr>"
  let ?s = "replicate 1024 0 @ paddedBlock @ replicate 512 0"
  have sz: "SizeOfPartitionEntry ?g = 256" and lba: "PartitionEntryLBA ?g = 2"
    and mx: "MaxNumberPartitionEntries ?g = 4"
    by (simp_all add: exampleHeader_def)
  have seek: "Seek bytesDevice badDisk (LogicalBlockSize * PartitionEntryLBA ?g)
      = (Inr (LogicalBlockSize * PartitionEntryLBA ?g), \<lparr>rd_s = ?s, rd_i = 1024\<rparr>)"
    unfolding lba badDisk_def by (rule Seek_bytesDevice)
  have len: "length paddedBlock = 512"
    by (simp add: paddedBlock_def)
  have r1: "ReadFull bytesDevice \<lparr>rd_s = ?s, rd_i = 1024\<rparr> 512
      = (Inr paddedBlock, \<lparr>rd_s = ?s, rd_i = 1536\<rparr>)"
    by (simp add: bytes_ReadFullN_ok len)
  have blocks: "deviceBlocks bytesDevice (Suc (1 div (512 div unat (SizeOfPartitionEntry ?g))))
      \<lparr>rd_s = ?s, rd_i = 1024\<rparr> = Some ([paddedBlock], \<lparr>rd_s = ?s, rd_i = 1536\<rparr>)"
    by (simp add: sz r1 copyInto_full len)
  have bad: "\<exists>x\<in>set (paddingAt (unat (SizeOfPartitionEntry ?g))
        ([paddedBlock] ! (1 div (512 div unat (SizeOfPartitionEntry ?g))))
        (1 mod (512 div unat (SizeOfPartitionEntry ?g)))). x \<noteq> 0"
    by (simp add: sz paddingAt_def paddedBlock_def)
  show ?thesis
    by (rule GetPartitions_entry_padding [OF seek _ _ _ blocks bad]) (simp_all add: sz mx)
qed

subsection \<open>\<open>GetPartitions\<close>: an entry count that is not a whole number of blocks\<close>

text \<open>Three entries asked for, two blocks on the disk from LBA 2 on.\<close>

lemma GetPartitions_three_entries_EOF:
  "GetPartitions bytesDevice (exampleHeader\<lparr>MaxNumberPartitionEntries := 3\<rparr>) (zeroDisk 2048)
     = Some (Inl (IO EOF), \<lparr>rd_s = replicate 2048 0, rd_i = 2048\<rparr>)"
proof -
  let ?g = "exampleHeader\<lparr>MaxNumberPartitionEntries := 3\<rparr>"
  have sz: "SizeOfPartitionEntry ?g = 128" and lba: "PartitionEntryLBA ?g = 2"
    and mx: "MaxNumberPartitionEntries ?g = 3"
    by (simp_all add: exampleHeader_def)
  have seek: "Seek bytesDevice (zeroDisk 2048) (LogicalBlockSize * PartitionEntryLBA ?g)
      = (Inr (LogicalBlockSize * PartitionEntryLBA ?g), \<lparr>rd_s = replicate 2048 0, rd_i = 1024\<rparr>)"
    unfolding lba by (rule Seek_zeroDisk)
  have r1: "ReadFull bytesDevice \<lparr>rd_s = replicate 2048 0, rd_i = 1024\<rparr> 512
      = (Inr (replicate 512 0), \<lparr>rd_s = replicate 2048 0, rd_i = 1536\<rparr>)"
    by (simp add: bytes_ReadFullN_ok)
  have r2: "ReadFull bytesDevice \<lparr>rd_s = replicate 2048 0, rd_i = 1536\<rparr> 512
      = (Inr (replicate 512 0), \<lparr>rd_s = replicate 2048 0, rd_i = 2048\<rparr>)"
    by (simp add: bytes_ReadFullN_ok)
  have r3: "ReadFull bytesDevice \<lparr>rd_s = replicate 2048 0, rd_i = 2048\<rparr> 512
      = (Inl EOF, \<lparr>rd_s = replicate 2048 0, rd_i = 2048\<rparr>)"
    by (simp add: bytes_ReadFullN_EOF)
  have blk: "copyInto (replicate 512 0) (replicate 512 (0::byte)) = replicate 512 0"
    by (simp add: copyInto_full)
  have el: "entryLoop ?g 4 0 (NewReader (replicate 512 0)) parts left
      = Inr (parts @ map (entryAt 128 (replicate 512 0)) [0..<4], left - 4)" for parts left
    by (rule entryLoop_128 [OF sz]) simp
  have l1: "(0::uint32) < 3" and l2: "(0::uint32) < 3 - 4" and l3: "(0::uint32) < 3 - 4 - 4"
    by (simp_all add: word_greater_zero_iff)
  have b3: "blockLoop bytesDevice ?g 4 \<lparr>rd_s = replicate 2048 0, rd_i = 2048\<rparr> parts (3 - 4 - 4)
      = Some (Inl (IO EOF), \<lparr>rd_s = replicate 2048 0, rd_i = 2048\<rparr>)" for parts
    using l3 by (subst blockLoop.simps) (simp add: unat_LogicalBlockSize r3)
  have b2: "blockLoop bytesDevice ?g 4 \<lparr>rd_s = replicate 2048 0, rd_i = 1536\<rparr> parts (3 - 4)
      = Some (Inl (IO EOF), \<lparr>rd_s = replicate 2048 0, rd_i = 2048\<rparr>)" for parts
    using l2 by (subst blockLoop.simps) (simp only: unat_LogicalBlockSize r2 blk el b3 if_True prod.case sum.case)
  have b1: "blockLoop bytesDevice ?g 4 \<lparr>rd_s = replicate 2048 0, rd_i = 1024\<rparr> [] 3
      = Some (Inl (IO EOF), \<lparr>rd_s = replicate 2048 0, rd_i = 2048\<rparr>)"
    using l1 by (subst blockLoop.simps) (simp only: unat_LogicalBlockSize r1 blk el b2 if_True prod.case sum.case)
  have nz: "SizeOfPartitionEntry ?g \<noteq> 0" and dv: "unat (SizeOfPartitionEntry ?g) dvd 512"
    by (simp_all add: sz)
  have ppb: "(ucast (LogicalBlockSize div ucast (SizeOfPartitionEntry ?g)) :: uint32) = 4"
    by (simp add: sz LogicalBlockSize_def)
  have "GetPartitions bytesDevice ?g (zeroDisk 2048)
      = blockLoop bytesDevice ?g (ucast (LogicalBlockSize div ucast (SizeOfPartitionEntry ?g)))
          \<lparr>rd_s = replicate 2048 0, rd_i = 1024\<rparr> [] (MaxNumberPartitionEntries ?g)"
    by (rule GetPartitions_blockLoop [OF seek nz dv])
  also have "\<dots> = blockLoop bytesDevice ?g 4 \<lparr>rd_s = replicate 2048 0, rd_i = 1024\<rparr> [] 3"
    by (simp only: ppb mx)
  also note b1
  finally show ?thesis .
qed

text \<open>The same header on a device that never runs out: the count never passes
  through zero, no approximation of the loop returns.\<close>

lemma blockLoop_endless_aux:
  assumes run: "blockLoop R g ppb disk parts left = Some y"
  shows "R = endlessDevice \<and> SizeOfPartitionEntry g = 128 \<and> ppb = 4 \<and> \<not> 4 dvd unat left \<longrightarrow> False"
proof (rule blockLoop.raw_induct [where P = "\<lambda>R g ppb disk parts left y.
    R = endlessDevice \<and> SizeOfPartitionEntry g = 128 \<and> ppb = 4 \<and> \<not> 4 dvd unat left \<longrightarrow> False",
    OF _ run])
  fix loop :: "'a ReadSeeker \<Rightarrow> GPTHeader \<Rightarrow> uint32 \<Rightarrow> 'a \<Rightarrow> GPTPartitionEntry list \<Rightarrow> uint32
      \<Rightarrow> ((error + GPTPartitionEntry list) \<times> 'a) option"
    and R g ppb disk parts left y
  assume IH: "\<And>R g ppb disk parts left y. loop R g ppb disk parts left = Some y \<Longrightarrow>
      R = endlessDevice \<and> SizeOfPartitionEntry g = 128 \<and> ppb = 4 \<and> \<not> 4 dvd unat left \<longrightarrow> False"
    and eq: "(if 0 < left then
        (case ReadFull R disk (unat LogicalBlockSize) of
           (Inl err, disk') \<Rightarrow> Some (Inl (IO err), disk')
         | (Inr got, disk') \<Rightarrow>
             (case entryLoop g ppb 0
                     (NewReader (copyInto (replicate (unat LogicalBlockSize) 0) got))
                     parts left of
                Inl err \<Rightarrow> Some (Inl err, disk')
              | Inr (partitions', partitionsLeft') \<Rightarrow>
                  loop R g ppb disk' partitions' partitionsLeft'))
      else Some (Inr parts, disk)) = Some y"
  show "R = endlessDevice \<and> SizeOfPartitionEntry g = 128 \<and> ppb = 4 \<and> \<not> 4 dvd unat left \<longrightarrow> False"
  proof
    assume a: "R = endlessDevice \<and> SizeOfPartitionEntry g = 128 \<and> ppb = 4 \<and> \<not> 4 dvd unat left"
    then have R: "R = endlessDevice" and sz: "SizeOfPartitionEntry g = 128" and ppb: "ppb = 4"
      and nd: "\<not> 4 dvd unat left"
      by simp_all
    from nd have "left \<noteq> 0"
      by (metis dvd_0_right unat_eq_0)
    then have pos: "0 < left"
      by (simp add: word_greater_zero_iff)
    have rd: "ReadFull R disk (unat LogicalBlockSize) = (Inr (replicate 512 0), disk)"
      by (simp add: R endlessDevice_def unat_LogicalBlockSize)
    have el: "entryLoop g ppb 0 (NewReader (copyInto (replicate (unat LogicalBlockSize) 0) (replicate 512 0))) parts left
        = Inr (parts @ map (entryAt 128 (replicate 512 0)) [0..<4], left - 4)"
      unfolding ppb unat_LogicalBlockSize using entryLoop_128 [OF sz, of "replicate 512 0" parts left]
      by (simp add: copyInto_full)
    from eq pos have rec: "loop R g ppb disk (parts @ map (entryAt 128 (replicate 512 0)) [0..<4]) (left - 4) = Some y"
      by (simp add: rd el)
    have "\<not> 4 dvd unat (left - 4)"
    proof
      assume "4 dvd unat (left - 4)"
      then have a: "unat (4 :: uint32) dvd unat (left - 4)"
        by simp
      have b: "unat (4 :: uint32) dvd 2 ^ 32"
        by simp
      have "unat (4 :: uint32) dvd unat left"
        by (rule dvd_unat_sub [OF b a])
      with nd show False by simp
    qed
    with IH [OF rec] R sz ppb show False
      by simp
  qed
qed

lemma GetPartitions_endless:
  "GetPartitions endlessDevice (exampleHeader\<lparr>MaxNumberPartitionEntries := 3\<rparr>) disk = None"
proof -
  let ?g = "exampleHeader\<lparr>MaxNumberPartitionEntries := 3\<rparr>"
  have sz: "SizeOfPartitionEntry ?g = 128" and mx: "MaxNumberPartitionEntries ?g = 3"
    by (simp_all add: exampleHeader_def)
  have seek: "Seek endlessDevice disk (LogicalBlockSize * PartitionEntryLBA ?g)
      = (Inr (LogicalBlockSize * PartitionEntryLBA ?g), disk)"
    by (simp add: endlessDevice_def)
  have nz: "SizeOfPartitionEntry ?g \<noteq> 0" and dv: "unat (SizeOfPartitionEntry ?g) dvd 512"
    by (simp_all add: sz)
  have ppb: "(ucast (LogicalBlockSize div ucast (SizeOfPartitionEntry ?g)) :: uint32) = 4"
    by (simp add: sz LogicalBlockSize_def)
  have eq: "GetPartitions endlessDevice ?g disk = blockLoop endlessDevice ?g 4 disk [] 3"
    using GetPartitions_blockLoop [OF seek nz dv] by (simp only: ppb mx)
  show ?thesis
  proof (cases "blockLoop endlessDevice ?g 4 disk [] 3")
    case None
    with eq show ?thesis by simp
  next
    case (Some y)
    from blockLoop_endless_aux [OF Some] sz show ?thesis
      by simp
  qed
qed

text \<open>
  Claim C2. \<open>GetPartitions\<close> should return exactly \<open>MaxNumberPartitionEntries\<close>
  entries for every valid header and every reader with enough data. It does not
  when the count is not a multiple of the entries per block: the inner loop
  always decodes a whole block, \<open>partitionsLeft\<close> is a \<open>uint32\<close> and wraps below
  zero instead of reaching it, and the outer loop reads on until the device
  fails. Here the header asks for 3 entries of 128 bytes and the disk holds two
  blocks from LBA 2 on, more than the 3 entries need: both blocks are read, 8
  entries decoded, and the third read returns \<open>io.EOF\<close>, which is the result. On
  a device that never runs out the call does not return.
\<close>

theorem GetPartitions_three_entries:
  "GetPartitions bytesDevice (exampleHeader\<lparr>MaxNumberPartitionEntries := 3\<rparr>) (zeroDisk 2048)
     = Some (Inl (IO EOF), \<lparr>rd_s = replicate 2048 0, rd_i = 2048\<rparr>) \<and>
   GetPartitions endlessDevice (exampleHeader\<lparr>MaxNumberPartitionEntries := 3\<rparr>) disk = None"
  using GetPartitions_three_entries_EOF GetPartitions_endless by (rule conjI)

subsection \<open>\<open>GetPartitions\<close>: what a successful call returns\<close>

text \<open>With a count that is a multiple of the entries per block and no byte set in
  any padding, the entries of all the blocks come back, in order.\<close>

lemma GetPartitions_blocks:
  assumes seek: "Seek R disk (LogicalBlockSize * PartitionEntryLBA g)
      = (Inr (LogicalBlockSize * PartitionEntryLBA g), disk1)"
    and ge: "128 \<le> unat (SizeOfPartitionEntry g)"
    and dv: "unat (SizeOfPartitionEntry g) dvd 512"
    and mx: "unat (MaxNumberPartitionEntries g) = n * (512 div unat (SizeOfPartitionEntry g))"
    and blocks: "deviceBlocks R n disk1 = Some (blks, disk2)"
    and zero: "\<forall>blk\<in>set blks. \<forall>j<512 div unat (SizeOfPartitionEntry g).
        \<forall>b\<in>set (paddingAt (unat (SizeOfPartitionEntry g)) blk j). b = 0"
  shows "GetPartitions R g disk =
      Some (Inr (concat (map (\<lambda>blk. map (entryAt (unat (SizeOfPartitionEntry g)) blk)
                  [0..<512 div unat (SizeOfPartitionEntry g)]) blks)), disk2)"
proof -
  let ?sz = "SizeOfPartitionEntry g"
  let ?ppb = "ucast (LogicalBlockSize div ucast ?sz) :: uint32"
  have nz: "?sz \<noteq> 0"
    using ge by auto
  have u: "unat ?ppb = 512 div unat ?sz"
    by (rule unat_ppb [OF nz])
  have prod: "unat ?sz * unat ?ppb = 512"
    by (rule ppb_facts(1) [OF nz dv])
  from blockLoop_ok [OF refl ge prod blocks, of "MaxNumberPartitionEntries g" "[]"] mx zero
  show ?thesis
    unfolding GetPartitions_blockLoop [OF seek nz dv] u by simp
qed

lemma GetPartitions_one_block:
  assumes seek: "Seek R disk (LogicalBlockSize * PartitionEntryLBA g)
      = (Inr (LogicalBlockSize * PartitionEntryLBA g), disk1)"
    and mx: "MaxNumberPartitionEntries g = 4" and sz: "SizeOfPartitionEntry g = 128"
    and rd: "ReadFull R disk1 512 = (Inr got, disk2)"
  shows "GetPartitions R g disk =
      Some (Inr (map (entryAt 128 (copyInto (replicate 512 0) got)) [0..<4]), disk2)"
proof -
  have blocks: "deviceBlocks R 1 disk1 = Some ([copyInto (replicate 512 0) got], disk2)"
    by (simp add: rd)
  from GetPartitions_blocks [OF seek _ _ _ blocks] show ?thesis
    by (simp add: sz mx paddingAt_def)
qed

lemma zeroDisk_run:
  "GetPartitions bytesDevice exampleHeader (zeroDisk 2048)
     = Some (Inr (map (entryAt 128 (replicate 512 0)) [0..<4]),
         \<lparr>rd_s = replicate 2048 0, rd_i = 1536\<rparr>)"
proof -
  have lba: "PartitionEntryLBA exampleHeader = 2"
    and mx: "MaxNumberPartitionEntries exampleHeader = 4"
    and sz: "SizeOfPartitionEntry exampleHeader = 128"
    by (simp_all add: exampleHeader_def)
  have seek: "Seek bytesDevice (zeroDisk 2048) (LogicalBlockSize * PartitionEntryLBA exampleHeader)
      = (Inr (LogicalBlockSize * PartitionEntryLBA exampleHeader), \<lparr>rd_s = replicate 2048 0, rd_i = 1024\<rparr>)"
    unfolding lba by (rule Seek_zeroDisk)
  have r1: "ReadFull bytesDevice \<lparr>rd_s = replicate 2048 0, rd_i = 1024\<rparr> 512
      = (Inr (replicate 512 0), \<lparr>rd_s = replicate 2048 0, rd_i = 1536\<rparr>)"
    by (simp add: bytes_ReadFullN_ok)
  from GetPartitions_one_block [OF seek mx sz r1] show ?thesis
    by (simp add: copyInto_full)
qed

lemma decodeGUID_zero: "decodeGUID (replicate 16 0) = ZeroGUID"
proof -
  have "replicate 6 (0::byte) = [0, 0, 0, 0, 0, 0]"
    by (simp add: eval_nat_numeral)
  then show ?thesis
    by (simp add: decodeGUID_def Uint32_def Uint16_def ZeroGUID_def)
qed

lemma PartitionType_entryAt_zero:
  "j < 4 \<Longrightarrow> PartitionType (entryAt 128 (replicate 512 0) j) = ZeroGUID"
proof -
  assume j: "j < 4"
  then have "j * 128 + 128 \<le> 512" by simp
  then have "take 16 (take 128 (drop (j * 128) (replicate 512 (0::byte)))) = replicate 16 0"
    by (simp add: min_def)
  then show ?thesis
    by (simp add: entryAt_def decodeEntry_def decodeGUID_zero)
qed

text \<open>
  Whenever \<open>GetPartitions\<close> returns entries, for any device, it returns exactly
  \<open>MaxNumberPartitionEntries\<close> of them; and it can do so only for an entry size
  that divides 512 and an entry count that is a multiple of the entries per
  block.
\<close>

theorem GetPartitions_success:
  assumes "GetPartitions R g disk = Some (Inr ps, d)"
  shows "length ps = unat (MaxNumberPartitionEntries g) \<and>
    SizeOfPartitionEntry g \<noteq> 0 \<and> unat (SizeOfPartitionEntry g) dvd 512 \<and>
    (512 div unat (SizeOfPartitionEntry g)) dvd unat (MaxNumberPartitionEntries g)"
proof -
  let ?sz = "SizeOfPartitionEntry g"
  let ?ppb = "ucast (LogicalBlockSize div ucast ?sz) :: uint32"
  from GetPartitions_Inr_blockLoop [OF assms] obtain disk1 where
    nz: "?sz \<noteq> 0" and dv: "unat ?sz dvd 512" and
    run: "blockLoop R g ?ppb disk1 [] (MaxNumberPartitionEntries g) = Some (Inr ps, d)"
    by blast
  from blockLoop_Inr_aux [OF run] ppb_facts(2) [OF nz dv]
  have "unat ?ppb dvd unat (MaxNumberPartitionEntries g)"
    and "length ps = unat (MaxNumberPartitionEntries g)"
    by simp_all
  with nz dv show ?thesis
    by (simp add: unat_ppb [OF nz])
qed

theorem GetPartitions_success_witness:
  "GetPartitions bytesDevice exampleHeader (zeroDisk 2048)
     = Some (Inr (map (entryAt 128 (replicate 512 0)) [0..<4]),
         \<lparr>rd_s = replicate 2048 0, rd_i = 1536\<rparr>) \<and>
   length (map (entryAt 128 (replicate 512 0)) [0..<4]) = unat (MaxNumberPartitionEntries exampleHeader)"
  using GetPartitions_success [OF zeroDisk_run] zeroDisk_run by simp

text \<open>
  For a header whose entry size is 128, 256 or 512 and whose entry count is \<open>n\<close>
  times the entries per block, a device on which the seek succeeds and which
  hands out \<open>n\<close> blocks with no byte set in any padding: \<open>GetPartitions\<close> returns
  the entries of these blocks in order, empty slots included, and leaves the
  device as it is after the \<open>n\<close>-th block.
\<close>

theorem GetPartitions_reads_all:
  assumes seek: "Seek R disk (LogicalBlockSize * PartitionEntryLBA g)
      = (Inr (LogicalBlockSize * PartitionEntryLBA g), disk1)"
    and ge: "128 \<le> unat (SizeOfPartitionEntry g)"
    and dv: "unat (SizeOfPartitionEntry g) dvd 512"
    and mx: "unat (MaxNumberPartitionEntries g) = n * (512 div unat (SizeOfPartitionEntry g))"
    and blocks: "deviceBlocks R n disk1 = Some (blks, disk2)"
    and zero: "\<forall>blk\<in>set blks. \<forall>j<512 div unat (SizeOfPartitionEntry g).
        \<forall>b\<in>set (paddingAt (unat (SizeOfPartitionEntry g)) blk j). b = 0"
  shows "GetPartitions R g disk =
      Some (Inr (concat (map (\<lambda>blk. map (entryAt (unat (SizeOfPartitionEntry g)) blk)
                  [0..<512 div unat (SizeOfPartitionEntry g)]) blks)), disk2)"
  using assms by (rule GetPartitions_blocks)

theorem GetPartitions_reads_all_witness:
  "GetPartitions bytesDevice (exampleHeader\<lparr>MaxNumberPartitionEntries := 8\<rparr>) (zeroDisk 2048)
     = Some (Inr (map (entryAt 128 (replicate 512 0)) [0..<4] @
                  map (entryAt 128 (replicate 512 0)) [0..<4]),
         \<lparr>rd_s = replicate 2048 0, rd_i = 2048\<rparr>)"
proof -
  let ?g = "exampleHeader\<lparr>MaxNumberPartitionEntries := 8\<rparr>"
  have sz: "SizeOfPartitionEntry ?g = 128" and lba: "PartitionEntryLBA ?g = 2"
    and mx: "MaxNumberPartitionEntries ?g = 8"
    by (simp_all add: exampleHeader_def)
  have seek: "Seek bytesDevice (zeroDisk 2048) (LogicalBlockSize * PartitionEntryLBA ?g)
      = (Inr (LogicalBlockSize * PartitionEntryLBA ?g), \<lparr>rd_s = replicate 2048 0, rd_i = 1024\<rparr>)"
    unfolding lba by (rule Seek_zeroDisk)
  have blocks: "deviceBlocks bytesDevice 2 \<lparr>rd_s = replicate 2048 0, rd_i = 1024\<rparr>
      = Some ([replicate 512 0, replicate 512 0], \<lparr>rd_s = replicate 2048 0, rd_i = 2048\<rparr>)"
    by (simp add: numeral_2_eq_2 bytes_ReadFullN_ok copyInto_full)
  from GetPartitions_reads_all [OF seek _ _ _ blocks] show ?thesis
    by (simp add: sz mx paddingAt_def)
qed

text \<open>
  The case of the specification: 4 entries of 128 bytes, blocks of 512. After the
  seek, one read of a whole block gives the 4 entries; the device is left as it
  is after that one read.
\<close>

theorem GetPartitions_four_entries_one_read:
  assumes seek: "Seek R disk (LogicalBlockSize * PartitionEntryLBA g)
      = (Inr (LogicalBlockSize * PartitionEntryLBA g), disk1)"
    and mx: "MaxNumberPartitionEntries g = 4" and sz: "SizeOfPartitionEntry g = 128"
    and rd: "ReadFull R disk1 512 = (Inr got, disk2)"
  shows "GetPartitions R g disk =
      Some (Inr (map (entryAt 128 (copyInto (replicate 512 0) got)) [0..<4]), disk2)"
  using assms by (rule GetPartitions_one_block)

theorem GetPartitions_four_entries_one_read_witness:
  "GetPartitions bytesDevice exampleHeader (zeroDisk 2048)
     = Some (Inr (map (entryAt 128 (replicate 512 0)) [0..<4]),
         \<lparr>rd_s = replicate 2048 0, rd_i = 1536\<rparr>) \<and>
   length (map (entryAt 128 (replicate 512 0)) [0..<4]) = 4 \<and>
   map PartitionType (map (entryAt 128 (replicate 512 0)) [0..<4])
     = [ZeroGUID, ZeroGUID, ZeroGUID, ZeroGUID]"
proof -
  have lba: "PartitionEntryLBA exampleHeader = 2"
    and mx: "MaxNumberPartitionEntries exampleHeader = 4"
    and sz: "SizeOfPartitionEntry exampleHeader = 128"
    by (simp_all add: exampleHeader_def)
  have seek: "Seek bytesDevice (zeroDisk 2048) (LogicalBlockSize * PartitionEntryLBA exampleHeader)
      = (Inr (LogicalBlockSize * PartitionEntryLBA exampleHeader), \<lparr>rd_s = replicate 2048 0, rd_i = 1024\<rparr>)"
    unfolding lba by (rule Seek_zeroDisk)
  have r1: "ReadFull bytesDevice \<lparr>rd_s = replicate 2048 0, rd_i = 1024\<rparr> 512
      = (Inr (replicate 512 0), \<lparr>rd_s = replicate 2048 0, rd_i = 1536\<rparr>)"
    by (simp add: bytes_ReadFullN_ok)
  have "[0..<4] = [0, 1, 2, 3]"
    by (simp add: eval_nat_numeral)
  then have t: "map PartitionType (map (entryAt 128 (replicate 512 0)) [0..<4])
     = [ZeroGUID, ZeroGUID, ZeroGUID, ZeroGUID]"
    by (simp add: PartitionType_entryAt_zero)
  from GetPartitions_four_entries_one_read [OF seek mx sz r1] t show ?thesis
    by (simp add: copyInto_full)
qed

end
